theory Spec2Isabelle
  imports Complex_Main
begin

section \<open>The posts route of memora: data model\<close>

text \<open>
  The handlers \<open>POST\<close> and \<open>GET\<close> of \<open>src/app/api/posts/route.ts\<close> are embedded as
  functions over an explicit database value. The Prisma schema, the session service and the
  storage helpers of \<open>@/lib/aws-s3\<close> are not part of the route file; what the handlers need
  from them is written out below and marked as such.
\<close>

text \<open>
  Modelled from the spec: the enum \<open>Visibility\<close> of the Prisma schema. The route names
  \<open>Visibility.PUBLIC\<close> and \<open>Visibility.FOLLOWERS\<close>; the spec speaks of one further, more
  restricted tier, called \<open>PRIVATE\<close> here. At run time an enum value is its name as a string.
\<close>

datatype visibility = PUBLIC | FOLLOWERS | PRIVATE

fun visibility_name :: "visibility \<Rightarrow> string" where
  "visibility_name PUBLIC = ''PUBLIC''"
| "visibility_name FOLLOWERS = ''FOLLOWERS''"
| "visibility_name PRIVATE = ''PRIVATE''"

definition parse_visibility :: "string \<Rightarrow> visibility option" where
  "parse_visibility s =
     (if s = ''PUBLIC'' then Some PUBLIC
      else if s = ''FOLLOWERS'' then Some FOLLOWERS
      else if s = ''PRIVATE'' then Some PRIVATE
      else None)"

text \<open>
  Modelled from the spec: the rows of the schema (section 3 of the spec). Identifiers are
  strings, as the \<open>userId\<close> query parameter is compared with \<open>Post.userId\<close> unconverted.
  \<open>Category\<close> and \<open>TAGS\<close> are enums whose values the route never names; they are kept as the
  strings the client sent.
\<close>

record user =
  u_id :: string
  u_email :: string
  u_username :: string
  u_avatar :: "string option"

record post =
  p_id :: string
  p_title :: string
  p_description :: string
  p_category :: string
  p_tags :: "string list"
  p_visibility :: visibility
  p_isDraft :: bool
  p_userId :: string
  p_coverImage :: "string option"
  p_createdAt :: int

record image =
  i_id :: string
  i_url :: string
  i_description :: "string option"
  i_postId :: string

record follow =
  followerId :: string
  followingId :: string

record db =
  users :: "user list"
  posts :: "post list"
  images :: "image list"
  follows :: "follow list"

subsection \<open>JavaScript values\<close>

text \<open>
  \<open>x || d\<close> on a value that is a string, \<open>null\<close> or \<open>undefined\<close>: the empty string is falsy.
  \<open>truthy\<close> is the test \<open>if (x)\<close> on such a value, keeping the string when it passes.
\<close>

definition truthy :: "string option \<Rightarrow> string option" where
  "truthy x = (case x of None \<Rightarrow> None | Some s \<Rightarrow> if s = [] then None else Some s)"

definition or_else :: "string option \<Rightarrow> string \<Rightarrow> string" where
  "or_else x d = (case truthy x of None \<Rightarrow> d | Some s \<Rightarrow> s)"

text \<open>
  A text is the list of the bytes of its UTF-8 encoding: equality, emptiness, splitting at
  a slash and the occurrence of one text in another are the same on the bytes as on the
  characters.
\<close>

text \<open>
  JavaScript numbers as far as the route meets them: \<open>NaN\<close>, the two infinities, and the
  doubles that are integers, held as their integer value. Every number here comes from
  \<open>parseInt\<close>, from a count of rows or from arithmetic on such values, so no fraction
  occurs. Negative zero is not told apart from zero: \<open>JSON.stringify\<close> writes both as \<open>0\<close>.
\<close>

datatype js_num = NaN | Num int | PosInf | NegInf

text \<open>The number of binary digits of a positive integer.\<close>

function bit_length :: "int \<Rightarrow> nat" where
  "bit_length n = (if n \<le> 0 then 0 else Suc (bit_length (n div 2)))"
  by pat_completeness auto
termination
  by (relation "measure nat") auto

declare bit_length.simps [simp del]

text \<open>
  The double nearest to an integer, ties to the even significand: exact below \<open>2^53\<close>,
  53 significant bits above, an infinity from \<open>2^1024\<close> on.
\<close>

definition to_double :: "int \<Rightarrow> js_num" where
  "to_double n =
     (let a = \<bar>n\<bar> in
      if a < 2 ^ 53 then Num n
      else
        (let e = bit_length a - 53;
             q = a div 2 ^ e;
             r = a mod 2 ^ e;
             q' = (if 2 ^ e < 2 * r \<or> (2 * r = 2 ^ e \<and> odd q) then q + 1 else q);
             v = q' * 2 ^ e
         in if 2 ^ 1024 \<le> v then (if n < 0 then NegInf else PosInf)
            else Num (if n < 0 then - v else v)))"

text \<open>
  The white space that \<open>parseInt\<close> skips (\<open>WhiteSpace\<close> and \<open>LineTerminator\<close> of the
  language standard), each character as its UTF-8 bytes: U+0009 to U+000D, U+0020, U+00A0,
  U+1680, U+2000 to U+200A, U+2028, U+2029, U+202F, U+205F, U+3000 and U+FEFF.
\<close>

definition white_space :: "string list" where
  "white_space =
     [[CHR 0x09], [CHR 0x0A], [CHR 0x0B], [CHR 0x0C], [CHR 0x0D], [CHR 0x20],
      [CHR 0xC2, CHR 0xA0],
      [CHR 0xE1, CHR 0x9A, CHR 0x80],
      [CHR 0xE2, CHR 0x80, CHR 0x80], [CHR 0xE2, CHR 0x80, CHR 0x81],
      [CHR 0xE2, CHR 0x80, CHR 0x82], [CHR 0xE2, CHR 0x80, CHR 0x83],
      [CHR 0xE2, CHR 0x80, CHR 0x84], [CHR 0xE2, CHR 0x80, CHR 0x85],
      [CHR 0xE2, CHR 0x80, CHR 0x86], [CHR 0xE2, CHR 0x80, CHR 0x87],
      [CHR 0xE2, CHR 0x80, CHR 0x88], [CHR 0xE2, CHR 0x80, CHR 0x89],
      [CHR 0xE2, CHR 0x80, CHR 0x8A],
      [CHR 0xE2, CHR 0x80, CHR 0xA8], [CHR 0xE2, CHR 0x80, CHR 0xA9],
      [CHR 0xE2, CHR 0x80, CHR 0xAF],
      [CHR 0xE2, CHR 0x81, CHR 0x9F],
      [CHR 0xE3, CHR 0x80, CHR 0x80],
      [CHR 0xEF, CHR 0xBB, CHR 0xBF]]"

text \<open>The number of bytes of the white-space character a text begins with, or 0.\<close>

definition space_width :: "string \<Rightarrow> nat" where
  "space_width s =
     (case find (\<lambda>w. take (length w) s = w) white_space of
        None \<Rightarrow> 0
      | Some w \<Rightarrow> length w)"

function skip_space :: "string \<Rightarrow> string" where
  "skip_space s = (if space_width s = 0 then s else skip_space (drop (space_width s) s))"
  by pat_completeness auto
termination
proof (relation "measure length")
  show "wf (measure length)" by simp
next
  fix s :: string
  assume "space_width s \<noteq> 0"
  moreover have "space_width [] = 0"
    by (simp add: space_width_def white_space_def)
  ultimately have "s \<noteq> []" by auto
  with \<open>space_width s \<noteq> 0\<close> show "(drop (space_width s) s, s) \<in> measure length"
    by simp
qed

declare skip_space.simps [simp del]

definition digit_of :: "char \<Rightarrow> nat option" where
  "digit_of c =
     (let n = (of_char c :: nat) in
      if 48 \<le> n \<and> n \<le> 57 then Some (n - 48)
      else if 97 \<le> n \<and> n \<le> 122 then Some (n - 87)
      else if 65 \<le> n \<and> n \<le> 90 then Some (n - 55)
      else None)"

text \<open>The longest prefix of digits below the radix; \<open>None\<close> when there is no digit at all.\<close>

fun digits_value :: "nat \<Rightarrow> int option \<Rightarrow> string \<Rightarrow> int option" where
  "digits_value r acc [] = acc"
| "digits_value r acc (c # cs) =
     (case digit_of c of
        None \<Rightarrow> acc
      | Some d \<Rightarrow>
          if d < r
          then digits_value r (Some ((case acc of None \<Rightarrow> 0 | Some a \<Rightarrow> a) * int r + int d)) cs
          else acc)"

text \<open>
  \<open>parseInt(s)\<close> with no radix: leading white space is skipped, then an optional sign, then
  a \<open>0x\<close> or \<open>0X\<close> prefix selects radix 16, otherwise radix 10; no digit gives \<open>NaN\<close>. The
  result is the double nearest to the value of the digits, which is what the V8 engine of
  Node.js returns.
\<close>

definition parseInt :: "string \<Rightarrow> js_num" where
  "parseInt s =
     (let s1 = skip_space s;
          neg = (case s1 of c # _ \<Rightarrow> c = CHR ''-'' | [] \<Rightarrow> False);
          s2 = (case s1 of c # t \<Rightarrow> if c = CHR ''-'' \<or> c = CHR ''+'' then t else s1 | [] \<Rightarrow> s1);
          hex = (take 2 s2 = ''0x'' \<or> take 2 s2 = ''0X'');
          v = (if hex then digits_value 16 None (drop 2 s2) else digits_value 10 None s2)
      in case v of None \<Rightarrow> NaN | Some n \<Rightarrow> to_double (if neg then - n else n))"

text \<open>\<open>Math.min\<close>, subtraction and multiplication on these numbers, rounded as doubles are.\<close>

definition js_min :: "js_num \<Rightarrow> js_num \<Rightarrow> js_num" where
  "js_min a b =
     (case (a, b) of
        (NaN, _) \<Rightarrow> NaN
      | (_, NaN) \<Rightarrow> NaN
      | (NegInf, _) \<Rightarrow> NegInf
      | (_, NegInf) \<Rightarrow> NegInf
      | (PosInf, y) \<Rightarrow> y
      | (x, PosInf) \<Rightarrow> x
      | (Num x, Num y) \<Rightarrow> Num (min x y))"

definition js_sub :: "js_num \<Rightarrow> js_num \<Rightarrow> js_num" where
  "js_sub a b =
     (case (a, b) of
        (NaN, _) \<Rightarrow> NaN
      | (_, NaN) \<Rightarrow> NaN
      | (Num x, Num y) \<Rightarrow> to_double (x - y)
      | (PosInf, PosInf) \<Rightarrow> NaN
      | (NegInf, NegInf) \<Rightarrow> NaN
      | (PosInf, _) \<Rightarrow> PosInf
      | (NegInf, _) \<Rightarrow> NegInf
      | (Num x, PosInf) \<Rightarrow> NegInf
      | (Num x, NegInf) \<Rightarrow> PosInf)"

definition js_sign :: "js_num \<Rightarrow> int" where
  "js_sign a = (case a of NaN \<Rightarrow> 0 | Num x \<Rightarrow> sgn x | PosInf \<Rightarrow> 1 | NegInf \<Rightarrow> - 1)"

definition js_mul :: "js_num \<Rightarrow> js_num \<Rightarrow> js_num" where
  "js_mul a b =
     (case (a, b) of
        (Num x, Num y) \<Rightarrow> to_double (x * y)
      | _ \<Rightarrow>
          if js_sign a * js_sign b = 0 then NaN
          else if 0 < js_sign a * js_sign b then PosInf
          else NegInf)"

text \<open>
  \<open>Math.ceil(total / limit)\<close> as it appears in the JSON body. A division by zero gives an
  infinity or \<open>NaN\<close>, and so does a \<open>NaN\<close> limit; \<open>JSON.stringify\<close> writes each of them as
  \<open>null\<close>, which is \<open>None\<close> here. A division by an infinity gives zero. For a nonzero finite
  limit the quotient is rounded up, also when the limit is negative; the double division
  does not disturb this as long as the total is below \<open>2^53\<close>, which a count of rows is.
\<close>

definition js_ceil_div :: "nat \<Rightarrow> js_num \<Rightarrow> int option" where
  "js_ceil_div tot lmt =
     (case lmt of
        NaN \<Rightarrow> None
      | PosInf \<Rightarrow> Some 0
      | NegInf \<Rightarrow> Some 0
      | Num l \<Rightarrow> if l = 0 then None else Some (- ((- int tot) div l)))"

text \<open>A number in a JSON body: what is not finite is written as \<open>null\<close>.\<close>

definition json_number :: "js_num \<Rightarrow> int option" where
  "json_number n = (case n of Num i \<Rightarrow> Some i | _ \<Rightarrow> None)"

subsection \<open>The session\<close>

text \<open>The result of \<open>getServerSession()\<close>, read by \<open>session?.user?.email\<close>.\<close>

record session_user =
  su_email :: "string option"

record session =
  s_user :: "session_user option"

definition session_email :: "session option \<Rightarrow> string option" where
  "session_email s =
     (case s of
        None \<Rightarrow> None
      | Some ss \<Rightarrow> (case s_user ss of None \<Rightarrow> None | Some u \<Rightarrow> su_email u))"

section \<open>The database client\<close>

text \<open>
  A \<open>where\<close> object as the listing builds it: the top-level keys are conjoined, and the list
  under \<open>OR\<close> is a disjunction conjoined with them. \<open>visibility\<close> and \<open>category\<close> hold the
  strings of the query (the casts \<open>as Visibility\<close>, \<open>as Category\<close> check nothing).
\<close>

datatype cond =
    VisibilityIs visibility
  | UserIdIs string
  | OwnerFollowedBy string
  | AND "cond list"

record where_clause =
  w_isDraft :: bool
  w_visibility :: "string option"
  w_category :: "string option"
  w_userId :: "string option"
  w_OR :: "cond list option"

text \<open>
  \<open>OwnerFollowedBy u\<close> is the relation filter
  \<open>{ user: { followers: { some: { followerId: u } } } }\<close>: the post's owner row has a follow
  edge pointing at it whose follower is \<open>u\<close>.
\<close>

fun cond_holds :: "db \<Rightarrow> post \<Rightarrow> cond \<Rightarrow> bool" where
  "cond_holds d p (VisibilityIs v) = (p_visibility p = v)"
| "cond_holds d p (UserIdIs u) = (p_userId p = u)"
| "cond_holds d p (OwnerFollowedBy u) =
     (\<exists>owner \<in> set (users d). u_id owner = p_userId p \<and>
        (\<exists>f \<in> set (follows d). followingId f = u_id owner \<and> followerId f = u))"
| "cond_holds d p (AND cs) = (\<forall>c \<in> set cs. cond_holds d p c)"

text \<open>A key of the \<open>where\<close> object: absent, or the column equals it.\<close>

definition key_ok :: "'a option \<Rightarrow> 'a \<Rightarrow> bool" where
  "key_ok k v = (case k of None \<Rightarrow> True | Some x \<Rightarrow> v = x)"

definition where_matches :: "db \<Rightarrow> where_clause \<Rightarrow> post \<Rightarrow> bool" where
  "where_matches d w p =
     (p_isDraft p = w_isDraft w
      \<and> key_ok (w_visibility w) (visibility_name (p_visibility p))
      \<and> key_ok (w_category w) (p_category p)
      \<and> key_ok (w_userId w) (p_userId p)
      \<and> (case w_OR w of None \<Rightarrow> True | Some cs \<Rightarrow> (\<exists>c \<in> set cs. cond_holds d p c)))"

text \<open>The client rejects a \<open>visibility\<close> filter that is not a value of the enum.\<close>

definition where_valid :: "where_clause \<Rightarrow> bool" where
  "where_valid w =
     (case w_visibility w of None \<Rightarrow> True | Some s \<Rightarrow> parse_visibility s \<noteq> None)"

datatype error = PrismaError | StorageError

text \<open>The data of \<open>prisma.post.create\<close> and \<open>prisma.image.create\<close>.\<close>

record post_data =
  pd_title :: string
  pd_description :: string
  pd_category :: string
  pd_tags :: "string list option"
  pd_visibility :: "string option"
  pd_isDraft :: "bool option"
  pd_userId :: string
  pd_coverImage :: string

record image_data =
  id_url :: string
  id_description :: "string option"
  id_postId :: string

datatype db_op =
    OpUserFindUnique string
  | OpPostFindMany where_clause js_num js_num
  | OpPostCount where_clause
  | OpPostCreate post_data
  | OpImageCreate image_data
  | OpPostUpdate string "string option"
  | OpPostDelete string

text \<open>
  What the route cannot see of the database: \<open>db_fails\<close> says whether a call throws in the
  current state for a reason of the database's own (connection, constraint, a value outside
  an enum); the other fields are the identifiers, the clock and the column defaults the
  database supplies on \<open>create\<close>. Every statement below holds for every such environment.
\<close>

record dbenv =
  db_fails :: "db \<Rightarrow> db_op \<Rightarrow> bool"
  new_post_id :: "db \<Rightarrow> string"
  new_image_id :: "db \<Rightarrow> string"
  now :: "db \<Rightarrow> int"
  default_visibility :: visibility
  default_isDraft :: bool

definition user_findUnique :: "dbenv \<Rightarrow> db \<Rightarrow> string \<Rightarrow> error + user option" where
  "user_findUnique env d email =
     (if db_fails env d (OpUserFindUnique email) then Inl PrismaError
      else Inr (find (\<lambda>u. u_email u = email) (users d)))"

text \<open>\<open>orderBy: { createdAt: 'desc' }\<close>; rows created at the same instant keep their order.\<close>

definition newest_first :: "post list \<Rightarrow> post list" where
  "newest_first ps = sort_key (\<lambda>p. - p_createdAt p) ps"

text \<open>
  \<open>skip\<close> and \<open>take\<close>: a negative \<open>take\<close> counts from the end of the ordered list, as the
  client documents it.
\<close>

definition page_of :: "nat \<Rightarrow> int \<Rightarrow> 'a list \<Rightarrow> 'a list" where
  "page_of s t xs =
     (if 0 \<le> t then take (nat t) (drop s xs)
      else rev (take (nat (- t)) (drop s (rev xs))))"

definition matching :: "db \<Rightarrow> where_clause \<Rightarrow> post list" where
  "matching d w = filter (where_matches d w) (posts d)"

text \<open>\<open>findMany\<close> throws on a \<open>skip\<close> or \<open>take\<close> that is not an integer and on a negative \<open>skip\<close>.\<close>

definition post_findMany ::
  "dbenv \<Rightarrow> db \<Rightarrow> where_clause \<Rightarrow> js_num \<Rightarrow> js_num \<Rightarrow> error + post list" where
  "post_findMany env d w skip tk =
     (if db_fails env d (OpPostFindMany w skip tk) \<or> \<not> where_valid w then Inl PrismaError
      else case (skip, tk) of
             (Num s, Num t) \<Rightarrow>
               if s < 0 then Inl PrismaError
               else Inr (page_of (nat s) t (newest_first (matching d w)))
           | _ \<Rightarrow> Inl PrismaError)"

definition post_count :: "dbenv \<Rightarrow> db \<Rightarrow> where_clause \<Rightarrow> error + nat" where
  "post_count env d w =
     (if db_fails env d (OpPostCount w) \<or> \<not> where_valid w then Inl PrismaError
      else Inr (length (matching d w)))"

section \<open>Listing: the handler GET\<close>

text \<open>The five values read from \<open>searchParams\<close>; \<open>get\<close> returns a string or \<open>null\<close>.\<close>

record list_query =
  q_page :: "string option"
  q_limit :: "string option"
  q_visibility :: "string option"
  q_category :: "string option"
  q_userId :: "string option"

record pagination =
  pg_page :: "int option"
  pg_limit :: "int option"
  pg_total :: nat
  pg_pages :: "int option"

text \<open>
  A response is a status and a JSON body. The owner summary and the like and comment counts
  that \<open>include\<close> adds to each post are read-only decorations and are left out; a created post
  is returned with its image rows.
\<close>

datatype body =
    Failure string
  | Created post "image list"
  | Listing "post list" pagination

datatype response = Response (status: nat) (body: body)

text \<open>Lines 188 to 202: the filters of the query, taken verbatim.\<close>

definition build_where :: "list_query \<Rightarrow> where_clause" where
  "build_where q =
     \<lparr>w_isDraft = False,
      w_visibility = truthy (q_visibility q),
      w_category = truthy (q_category q),
      w_userId = truthy (q_userId q),
      w_OR = None\<rparr>"

text \<open>The disjunction of lines 219 to 236 for the caller \<open>uid\<close>.\<close>

definition visible_to :: "string \<Rightarrow> cond list" where
  "visible_to uid =
     [VisibilityIs PUBLIC, UserIdIs uid, AND [VisibilityIs FOLLOWERS, OwnerFollowedBy uid]]"

text \<open>Lines 205 to 239: what the session adds to the \<open>where\<close> object.\<close>

definition apply_session ::
  "dbenv \<Rightarrow> db \<Rightarrow> session option \<Rightarrow> list_query \<Rightarrow> where_clause \<Rightarrow> error + where_clause" where
  "apply_session env d sess q w =
     (case truthy (session_email sess) of
        None \<Rightarrow> Inr (w\<lparr>w_visibility := Some (visibility_name PUBLIC)\<rparr>)
      | Some email \<Rightarrow>
          (case truthy (q_userId q) of
             Some _ \<Rightarrow> Inr w
           | None \<Rightarrow>
               (case user_findUnique env d email of
                  Inl e \<Rightarrow> Inl e
                | Inr None \<Rightarrow> Inr w
                | Inr (Some u) \<Rightarrow> Inr (w\<lparr>w_OR := Some (visible_to (u_id u))\<rparr>))))"

definition internal_error :: response where
  "internal_error = Response 500 (Failure ''Internal server error'')"

definition GET :: "dbenv \<Rightarrow> db \<Rightarrow> session option \<Rightarrow> list_query \<Rightarrow> response" where
  "GET env d sess q =
     (let page = parseInt (or_else (q_page q) ''1'');
          limit = js_min (parseInt (or_else (q_limit q) ''10'')) (Num 50);
          skip = js_mul (js_sub page (Num 1)) limit
      in case apply_session env d sess q (build_where q) of
           Inl e \<Rightarrow> internal_error
         | Inr w \<Rightarrow>
             (case post_findMany env d w skip limit of
                Inl e \<Rightarrow> internal_error
              | Inr ps \<Rightarrow>
                  (case post_count env d w of
                     Inl e \<Rightarrow> internal_error
                   | Inr tot \<Rightarrow>
                       Response 200
                         (Listing ps
                            \<lparr>pg_page = json_number page,
                             pg_limit = json_number limit,
                             pg_total = tot,
                             pg_pages = js_ceil_div tot limit\<rparr>))))"

section \<open>Creation: the handler POST\<close>

subsection \<open>Writes of the database client\<close>

text \<open>
  \<open>prisma.post.create\<close>: the row gets a fresh identifier and the creation time from the
  database, and the column defaults where the payload left a value out. A \<open>visibility\<close>
  outside the enum is refused.
\<close>

definition post_create :: "dbenv \<Rightarrow> db \<Rightarrow> post_data \<Rightarrow> error + post \<times> db" where
  "post_create env d pd =
     (if db_fails env d (OpPostCreate pd) then Inl PrismaError
      else case (case pd_visibility pd of
                   None \<Rightarrow> Some (default_visibility env)
                 | Some s \<Rightarrow> parse_visibility s) of
             None \<Rightarrow> Inl PrismaError
           | Some v \<Rightarrow>
               (let p = \<lparr>p_id = new_post_id env d,
                         p_title = pd_title pd,
                         p_description = pd_description pd,
                         p_category = pd_category pd,
                         p_tags = (case pd_tags pd of None \<Rightarrow> [] | Some ts \<Rightarrow> ts),
                         p_visibility = v,
                         p_isDraft = (case pd_isDraft pd of
                                        None \<Rightarrow> default_isDraft env | Some b \<Rightarrow> b),
                         p_userId = pd_userId pd,
                         p_coverImage = Some (pd_coverImage pd),
                         p_createdAt = now env d\<rparr>
                in Inr (p, d\<lparr>posts := posts d @ [p]\<rparr>)))"

definition image_create :: "dbenv \<Rightarrow> db \<Rightarrow> image_data \<Rightarrow> error + db" where
  "image_create env d im =
     (if db_fails env d (OpImageCreate im) then Inl PrismaError
      else Inr (d\<lparr>images := images d @
                  [\<lparr>i_id = new_image_id env d, i_url = id_url im,
                    i_description = id_description im, i_postId = id_postId im\<rparr>]\<rparr>))"

text \<open>\<open>prisma.post.update\<close> by identifier sets \<open>coverImage\<close>; it throws when no row has it.\<close>

definition post_update ::
  "dbenv \<Rightarrow> db \<Rightarrow> string \<Rightarrow> string option \<Rightarrow> error + post \<times> db" where
  "post_update env d pid cover =
     (if db_fails env d (OpPostUpdate pid cover) then Inl PrismaError
      else case find (\<lambda>p. p_id p = pid) (posts d) of
             None \<Rightarrow> Inl PrismaError
           | Some p \<Rightarrow>
               Inr (p\<lparr>p_coverImage := cover\<rparr>,
                    d\<lparr>posts := map (\<lambda>x. if p_id x = pid then x\<lparr>p_coverImage := cover\<rparr> else x)
                                  (posts d)\<rparr>))"

text \<open>
  \<open>prisma.post.delete\<close> by identifier throws when no row has it. The image rows of the post
  are the business of the schema's referential action, which is outside the route: the
  database either refuses the delete through \<open>db_fails\<close> or removes the post row, and the
  image rows are not touched here.
\<close>

definition post_delete :: "dbenv \<Rightarrow> db \<Rightarrow> string \<Rightarrow> error + db" where
  "post_delete env d pid =
     (if db_fails env d (OpPostDelete pid) then Inl PrismaError
      else case find (\<lambda>p. p_id p = pid) (posts d) of
             None \<Rightarrow> Inl PrismaError
           | Some _ \<Rightarrow> Inr (d\<lparr>posts := filter (\<lambda>p. p_id p \<noteq> pid) (posts d)\<rparr>))"

subsection \<open>The request and the storage helpers\<close>

text \<open>
  The interface \<open>FileData\<close> of lines 9 to 14 and the fields read from the JSON body. A field
  that the body leaves out is \<open>None\<close>; the body is taken to be of the types the route casts
  it to.
\<close>

record file_data =
  s3Key :: string
  fd_description :: "string option"
  fileName :: string
  fileType :: string

record payload =
  b_title :: "string option"
  b_description :: "string option"
  b_category :: "string option"
  b_tags :: "string list option"
  b_visibility :: "string option"
  b_isDraft :: "bool option"
  b_coverImage :: "string option"
  b_files :: "file_data list option"

text \<open>
  Modelled from the spec: the helpers \<open>generateFinalKey\<close> and \<open>moveFileFromTemp\<close> of
  \<open>@/lib/aws-s3\<close>, which the route imports. The spec says that the final key is computed
  deterministically from the user, the post, the file name and the visibility, so it is a
  function of these four; the move acts on a storage that the route never inspects and
  returns the URL of the moved object. Either helper may throw. \<open>bucket\<close> and \<open>region\<close> are
  the texts that \<open>process.env.AWS_S3_BUCKET_NAME\<close> and \<open>process.env.AWS_REGION\<close> contribute
  to the template string of line 120.
\<close>

record 's s3env =
  generateFinalKey :: "string \<Rightarrow> string \<Rightarrow> string \<Rightarrow> string option \<Rightarrow> error + string"
  moveFileFromTemp :: "'s \<Rightarrow> string \<Rightarrow> string \<Rightarrow> (error + string) \<times> 's"
  bucket :: string
  region :: string

subsection \<open>The loop over the files\<close>

text \<open>
  The state the loop threads: the storage, the database, the array \<open>movedFiles\<close> and the
  file names that \<open>console.error\<close> reported from the inner \<open>catch\<close>.
\<close>

record 's run =
  r_storage :: 's
  r_db :: db
  movedFiles :: "string list"
  reported :: "string list"

text \<open>The run before the loop: nothing moved, nothing reported.\<close>

definition fresh_run :: "'s \<Rightarrow> db \<Rightarrow> 's run" where
  "fresh_run st d = \<lparr>r_storage = st, r_db = d, movedFiles = [], reported = []\<rparr>"

text \<open>Lines 77 to 102: one pass of the loop body, with its own \<open>try\<close> and \<open>catch\<close>.\<close>

definition process_file ::
  "dbenv \<Rightarrow> 's s3env \<Rightarrow> string \<Rightarrow> string \<Rightarrow> string option \<Rightarrow> 's run \<Rightarrow> file_data \<Rightarrow> 's run" where
  "process_file env s3 uid pid vis r f =
     (case generateFinalKey s3 uid pid (fileName f) vis of
        Inl e \<Rightarrow> r\<lparr>reported := reported r @ [fileName f]\<rparr>
      | Inr finalKey \<Rightarrow>
          (case moveFileFromTemp s3 (r_storage r) (s3Key f) finalKey of
             (Inl e, st) \<Rightarrow> r\<lparr>r_storage := st, reported := reported r @ [fileName f]\<rparr>
           | (Inr finalUrl, st) \<Rightarrow>
               (case image_create env (r_db r)
                       \<lparr>id_url = finalUrl, id_description = truthy (fd_description f),
                        id_postId = pid\<rparr> of
                  Inl e \<Rightarrow>
                    r\<lparr>r_storage := st, movedFiles := movedFiles r @ [finalUrl],
                      reported := reported r @ [fileName f]\<rparr>
                | Inr d \<Rightarrow>
                    r\<lparr>r_storage := st, r_db := d, movedFiles := movedFiles r @ [finalUrl]\<rparr>)))"

definition process_files ::
  "dbenv \<Rightarrow> 's s3env \<Rightarrow> string \<Rightarrow> string \<Rightarrow> string option \<Rightarrow> 's run \<Rightarrow> file_data list \<Rightarrow> 's run" where
  "process_files env s3 uid pid vis r fs = foldl (process_file env s3 uid pid vis) r fs"

subsection \<open>The cover image\<close>

text \<open>\<open>s.split('/').pop()\<close>: the text after the last slash, the whole text when there is none.\<close>

definition last_segment :: "string \<Rightarrow> string" where
  "last_segment s = rev (takeWhile (\<lambda>c. c \<noteq> CHR ''/'') (rev s))"

fun starts_with :: "string \<Rightarrow> string \<Rightarrow> bool" where
  "starts_with s [] = True"
| "starts_with [] (c # cs) = False"
| "starts_with (x # xs) (c # cs) = (x = c \<and> starts_with xs cs)"

text \<open>\<open>s.includes(n)\<close>: the text \<open>n\<close> occurs in \<open>s\<close>.\<close>

fun js_includes :: "string \<Rightarrow> string \<Rightarrow> bool" where
  "js_includes [] n = (n = [])"
| "js_includes (x # xs) n = (starts_with (x # xs) n \<or> js_includes xs n)"

definition final_url :: "'s s3env \<Rightarrow> string \<Rightarrow> string" where
  "final_url s3 key = ''https://'' @ bucket s3 @ ''.s3.'' @ region s3 @ ''.amazonaws.com/'' @ key"

text \<open>Lines 109 to 111: the first file whose temporary key's last segment occurs in the hint.\<close>

definition find_cover_file :: "string \<Rightarrow> file_data list \<Rightarrow> file_data option" where
  "find_cover_file hint fs = find (\<lambda>f. js_includes hint (last_segment (s3Key f))) fs"

text \<open>Lines 106 to 122: \<open>finalCoverImage\<close>, the empty text when nothing was hinted or matched.\<close>

definition cover_from_hint ::
  "'s s3env \<Rightarrow> string \<Rightarrow> string \<Rightarrow> string option \<Rightarrow> string option \<Rightarrow> file_data list
     \<Rightarrow> error + string" where
  "cover_from_hint s3 uid pid vis hint fs =
     (case truthy hint of
        None \<Rightarrow> Inr []
      | Some c \<Rightarrow>
          (case find_cover_file c fs of
             None \<Rightarrow> Inr []
           | Some f \<Rightarrow>
               (case generateFinalKey s3 uid pid (fileName f) vis of
                  Inl e \<Rightarrow> Inl e
                | Inr coverFinalKey \<Rightarrow> Inr (final_url s3 coverFinalKey))))"

text \<open>Line 128: \<open>finalCoverImage || movedFiles[0] || null\<close>.\<close>

definition pick_cover :: "string \<Rightarrow> string list \<Rightarrow> string option" where
  "pick_cover finalCoverImage moved =
     (if finalCoverImage \<noteq> [] then Some finalCoverImage
      else case moved of
             [] \<Rightarrow> None
           | u # _ \<Rightarrow> if u \<noteq> [] then Some u else None)"

subsection \<open>The handler\<close>

text \<open>
  Lines 72 to 152, the body of the inner \<open>try\<close>: the loop, the cover image and the update.
  \<open>Inl\<close> is an exception that leaves the block; the run is what the block had done by then.
\<close>

definition file_processing ::
  "dbenv \<Rightarrow> 's s3env \<Rightarrow> 's \<Rightarrow> db \<Rightarrow> string \<Rightarrow> string \<Rightarrow> payload \<Rightarrow> file_data list
     \<Rightarrow> (error + post \<times> image list) \<times> 's run" where
  "file_processing env s3 st d uid pid b fs =
     (let r = process_files env s3 uid pid (b_visibility b) (fresh_run st d) fs
      in case cover_from_hint s3 uid pid (b_visibility b) (b_coverImage b) fs of
           Inl e \<Rightarrow> (Inl e, r)
         | Inr finalCoverImage \<Rightarrow>
             (case post_update env (r_db r) pid (pick_cover finalCoverImage (movedFiles r)) of
                Inl e \<Rightarrow> (Inl e, r)
              | Inr (updatedPost, d') \<Rightarrow>
                  (Inr (updatedPost, filter (\<lambda>i. i_postId i = pid) (images d')),
                   r\<lparr>r_db := d'\<rparr>)))"

text \<open>Line 39: the validation of the required fields.\<close>

definition missing_required :: "payload \<Rightarrow> bool" where
  "missing_required b =
     (truthy (b_title b) = None \<or> truthy (b_description b) = None
      \<or> truthy (b_category b) = None \<or> b_files b = None \<or> b_files b = Some [])"

text \<open>
  Lines 60 to 69: the data of the new row; the cover image starts as the empty text. The
  validation of line 39 has passed by then, so title, description and category are present
  and \<open>or_else\<close> returns them unchanged.
\<close>

definition new_post_data :: "user \<Rightarrow> payload \<Rightarrow> post_data" where
  "new_post_data u b =
     \<lparr>pd_title = or_else (b_title b) [],
      pd_description = or_else (b_description b) [],
      pd_category = or_else (b_category b) [],
      pd_tags = b_tags b,
      pd_visibility = b_visibility b,
      pd_isDraft = b_isDraft b,
      pd_userId = u_id u,
      pd_coverImage = []\<rparr>"

text \<open>The files of a body that passed the validation.\<close>

definition files_of :: "payload \<Rightarrow> file_data list" where
  "files_of b = (case b_files b of None \<Rightarrow> [] | Some fs \<Rightarrow> fs)"

definition POST ::
  "dbenv \<Rightarrow> 's s3env \<Rightarrow> 's \<Rightarrow> db \<Rightarrow> session option \<Rightarrow> payload \<Rightarrow> response \<times> 's run" where
  "POST env s3 st d sess b =
     (let idle = fresh_run st d in
      case truthy (session_email sess) of
        None \<Rightarrow> (Response 401 (Failure ''Unauthorized''), idle)
      | Some email \<Rightarrow>
          if missing_required b then (Response 400 (Failure ''Missing required fields''), idle)
          else
            (case user_findUnique env d email of
               Inl e \<Rightarrow> (internal_error, idle)
             | Inr None \<Rightarrow> (Response 404 (Failure ''User not found''), idle)
             | Inr (Some u) \<Rightarrow>
                 (case post_create env d (new_post_data u b) of
                    Inl e \<Rightarrow> (internal_error, idle)
                  | Inr (p, d1) \<Rightarrow>
                      (case file_processing env s3 st d1 (u_id u) (p_id p) b (files_of b) of
                         (Inr (updatedPost, imgs), r) \<Rightarrow>
                           (Response 200 (Created updatedPost imgs), r)
                       | (Inl e, r) \<Rightarrow>
                           (case post_delete env (r_db r) (p_id p) of
                              Inl e' \<Rightarrow> (internal_error, r)
                            | Inr d3 \<Rightarrow>
                                (Response 500 (Failure ''Failed to process uploaded files''),
                                 r\<lparr>r_db := d3\<rparr>))))))"

section \<open>The listing rules in the words of the specification\<close>

text \<open>
  The explicit filters of a query: not a draft, and each of \<open>visibility\<close>, \<open>category\<close> and
  \<open>userId\<close> is either not given (absent or empty) or equal to the post's column.
\<close>

definition explicit_filters :: "list_query \<Rightarrow> post \<Rightarrow> bool" where
  "explicit_filters q p =
     (\<not> p_isDraft p
      \<and> key_ok (truthy (q_visibility q)) (visibility_name (p_visibility p))
      \<and> key_ok (truthy (q_category q)) (p_category p)
      \<and> key_ok (truthy (q_userId q)) (p_userId p))"

text \<open>The caller \<open>uid\<close> follows the owner of the post.\<close>

definition follows_owner :: "db \<Rightarrow> string \<Rightarrow> post \<Rightarrow> bool" where
  "follows_owner d uid p =
     (\<exists>owner \<in> set (users d). u_id owner = p_userId p \<and>
        (\<exists>f \<in> set (follows d). followingId f = u_id owner \<and> followerId f = uid))"

text \<open>
  The disjunction of the specification: the post is public, or it is the caller's own, or it
  is for followers and the caller follows its owner.
\<close>

definition may_see :: "db \<Rightarrow> string \<Rightarrow> post \<Rightarrow> bool" where
  "may_see d uid p =
     (p_visibility p = PUBLIC \<or> p_userId p = uid
      \<or> (p_visibility p = FOLLOWERS \<and> follows_owner d uid p))"

section \<open>The creation rules in the words of the specification\<close>

text \<open>
  The files of a request as the loop meets them: each file with the run in which the loop
  body starts on it.
\<close>

fun runs_before ::
  "dbenv \<Rightarrow> 's s3env \<Rightarrow> string \<Rightarrow> string \<Rightarrow> string option \<Rightarrow> 's run \<Rightarrow> file_data list
     \<Rightarrow> (file_data \<times> 's run) list" where
  "runs_before env s3 uid pid vis r [] = []"
| "runs_before env s3 uid pid vis r (f # fs) =
     (f, r) # runs_before env s3 uid pid vis (process_file env s3 uid pid vis r f) fs"

text \<open>
  The file's move did not throw: the URL that the move returned, when the final key was
  computed and the move succeeded.
\<close>

definition moved_url ::
  "'s s3env \<Rightarrow> string \<Rightarrow> string \<Rightarrow> string option \<Rightarrow> file_data \<times> 's run \<Rightarrow> string option" where
  "moved_url s3 uid pid vis fr =
     (case generateFinalKey s3 uid pid (fileName (fst fr)) vis of
        Inl e \<Rightarrow> None
      | Inr finalKey \<Rightarrow>
          (case fst (moveFileFromTemp s3 (r_storage (snd fr)) (s3Key (fst fr)) finalKey) of
             Inl e \<Rightarrow> None
           | Inr url \<Rightarrow> Some url))"

text \<open>
  The file's move did not throw and neither did the insert of its image row: the row that
  the insert wrote.
\<close>

definition recorded_image ::
  "dbenv \<Rightarrow> 's s3env \<Rightarrow> string \<Rightarrow> string \<Rightarrow> string option \<Rightarrow> file_data \<times> 's run \<Rightarrow> image option" where
  "recorded_image env s3 uid pid vis fr =
     (case moved_url s3 uid pid vis fr of
        None \<Rightarrow> None
      | Some url \<Rightarrow>
          if db_fails env (r_db (snd fr))
               (OpImageCreate \<lparr>id_url = url, id_description = truthy (fd_description (fst fr)),
                               id_postId = pid\<rparr>)
          then None
          else Some \<lparr>i_id = new_image_id env (r_db (snd fr)), i_url = url,
                     i_description = truthy (fd_description (fst fr)), i_postId = pid\<rparr>)"

text \<open>
  The hint names a file: the part of the file's temporary key after its last slash (the
  whole key when it has no slash) occurs somewhere in the hint.
\<close>

definition hint_names :: "string \<Rightarrow> file_data \<Rightarrow> bool" where
  "hint_names c f =
     (\<exists>dir seg a z. s3Key f = dir @ seg \<and> CHR ''/'' \<notin> set seg
        \<and> (dir = [] \<or> last dir = CHR ''/'') \<and> c = a @ seg @ z)"

section \<open>Sample data\<close>

text \<open>
  A small database used to run the handlers on concrete requests: alice follows bob, nobody
  follows carol, and the posts cover every visibility tier.
\<close>

definition quiet_env :: dbenv where
  "quiet_env =
     \<lparr>db_fails = (\<lambda>d op. False), new_post_id = (\<lambda>d. ''p9''),
      new_image_id = (\<lambda>d. ''i'' @ replicate (length (images d)) (CHR ''+'')), now = (\<lambda>d. 9),
      default_visibility = PUBLIC, default_isDraft = False\<rparr>"

definition mk_post :: "string \<Rightarrow> string \<Rightarrow> visibility \<Rightarrow> bool \<Rightarrow> int \<Rightarrow> post" where
  "mk_post i owner v dr t =
     \<lparr>p_id = i, p_title = ''t'', p_description = ''d'', p_category = ''ART'',
      p_tags = [], p_visibility = v, p_isDraft = dr, p_userId = owner,
      p_coverImage = None, p_createdAt = t\<rparr>"

definition bob_public :: post where
  "bob_public = mk_post ''p1'' ''u2'' PUBLIC False 1"

definition bob_followers :: post where
  "bob_followers = mk_post ''p2'' ''u2'' FOLLOWERS False 2"

definition bob_private :: post where
  "bob_private = mk_post ''p3'' ''u2'' PRIVATE False 3"

definition carol_followers :: post where
  "carol_followers = mk_post ''p4'' ''u3'' FOLLOWERS False 4"

definition alice_private :: post where
  "alice_private = mk_post ''p5'' ''u1'' PRIVATE False 5"

definition carol_draft :: post where
  "carol_draft = mk_post ''p6'' ''u3'' PUBLIC True 6"

definition alice :: user where
  "alice = \<lparr>u_id = ''u1'', u_email = ''a@x'', u_username = ''alice'', u_avatar = None\<rparr>"

definition bob :: user where
  "bob = \<lparr>u_id = ''u2'', u_email = ''b@x'', u_username = ''bob'', u_avatar = None\<rparr>"

definition carol :: user where
  "carol = \<lparr>u_id = ''u3'', u_email = ''c@x'', u_username = ''carol'', u_avatar = None\<rparr>"

definition demo_db :: db where
  "demo_db =
     \<lparr>users = [alice, bob, carol],
      posts = [bob_public, bob_followers, bob_private, carol_followers, alice_private,
               carol_draft],
      images = [],
      follows = [\<lparr>followerId = ''u1'', followingId = ''u2''\<rparr>]\<rparr>"

definition signed_in :: "string \<Rightarrow> session option" where
  "signed_in e = Some \<lparr>s_user = Some \<lparr>su_email = Some e\<rparr>\<rparr>"

definition no_query :: list_query where
  "no_query =
     \<lparr>q_page = None, q_limit = None, q_visibility = None, q_category = None,
      q_userId = None\<rparr>"


text \<open>
  Storage helpers for the sample runs: the storage is the list of keys it holds, a move
  succeeds when the temporary key is there, and the final key is made of the user, the post
  and the file name.
\<close>

definition demo_s3 :: "string list s3env" where
  "demo_s3 =
     \<lparr>generateFinalKey = (\<lambda>uid pid name vis. Inr (uid @ ''/'' @ pid @ ''/'' @ name)),
      moveFileFromTemp = (\<lambda>st src dst.
         if src \<in> set st
         then (Inr (''https://b.s3.r.amazonaws.com/'' @ dst), remove1 src st @ [dst])
         else (Inl StorageError, st)),
      bucket = ''b'', region = ''r''\<rparr>"

definition mk_file :: "string \<Rightarrow> string \<Rightarrow> file_data" where
  "mk_file key name = \<lparr>s3Key = key, fd_description = None, fileName = name, fileType = ''image/png''\<rparr>"

definition demo_payload :: payload where
  "demo_payload =
     \<lparr>b_title = Some ''t'', b_description = Some ''d'', b_category = Some ''ART'',
      b_tags = None, b_visibility = Some ''PUBLIC'', b_isDraft = Some False,
      b_coverImage = None,
      b_files = Some [mk_file ''tmp/a.png'' ''a.png'', mk_file ''tmp/b.png'' ''b.png'']\<rparr>"

definition tiny_db :: db where
  "tiny_db = \<lparr>users = [alice], posts = [], images = [], follows = []\<rparr>"

text \<open>Databases that throw on chosen calls.\<close>

definition is_update :: "db_op \<Rightarrow> bool" where
  "is_update op = (case op of OpPostUpdate _ _ \<Rightarrow> True | _ \<Rightarrow> False)"

definition is_delete :: "db_op \<Rightarrow> bool" where
  "is_delete op = (case op of OpPostDelete _ \<Rightarrow> True | _ \<Rightarrow> False)"

definition is_insert_of :: "string \<Rightarrow> db_op \<Rightarrow> bool" where
  "is_insert_of url op = (case op of OpImageCreate im \<Rightarrow> id_url im = url | _ \<Rightarrow> False)"

definition failing_env :: "(db_op \<Rightarrow> bool) \<Rightarrow> dbenv" where
  "failing_env bad = quiet_env\<lparr>db_fails := (\<lambda>d op. bad op)\<rparr>"

definition both_keys :: "string list" where
  "both_keys = [''tmp/a.png'', ''tmp/b.png'']"

definition url_a :: string where
  "url_a = ''https://b.s3.r.amazonaws.com/u1/p9/a.png''"

definition url_b :: string where
  "url_b = ''https://b.s3.r.amazonaws.com/u1/p9/b.png''"


text \<open>A request whose temporary keys do not hold the file names.\<close>

definition keyed_payload :: payload where
  "keyed_payload =
     demo_payload\<lparr>b_files := Some [mk_file ''tmp/k1'' ''a.png'', mk_file ''tmp/k2'' ''b.png'']\<rparr>"

text \<open>Storage helpers that cannot compute a final key for the file name \<open>a.png\<close>.\<close>

definition picky_s3 :: "string list s3env" where
  "picky_s3 =
     demo_s3\<lparr>generateFinalKey := (\<lambda>uid pid name vis.
        if name = ''a.png'' then Inl StorageError else Inr (uid @ ''/'' @ pid @ ''/'' @ name))\<rparr>"

section \<open>Facts about the listing\<close>

lemma set_page_of: "set (page_of s t xs) \<subseteq> set xs"
proof (cases "0 \<le> t")
  case True
  then show ?thesis by (auto simp: page_of_def dest: in_set_takeD in_set_dropD)
next
  case False
  have "set (take (nat (- t)) (drop s (rev xs))) \<subseteq> set (rev xs)"
    by (meson in_set_takeD in_set_dropD subsetI)
  with False show ?thesis by (simp add: page_of_def)
qed


lemma js_mul_NumD:
  assumes "js_mul a b = Num s"
  shows "\<exists>x y. a = Num x \<and> b = Num y"
  using assms by (cases a; cases b) (auto simp: js_mul_def split: if_splits)

lemma js_sub_NumD:
  assumes "js_sub a (Num y) = Num x"
  shows "\<exists>p. a = Num p"
  using assms by (cases a) (auto simp: js_sub_def)


lemma GET_listingE:
  assumes "GET env d sess q = Response st (Listing ps pg)"
  obtains w pn ln s where
    "apply_session env d sess q (build_where q) = Inr w"
    "where_valid w"
    "parseInt (or_else (q_page q) ''1'') = Num pn"
    "js_min (parseInt (or_else (q_limit q) ''10'')) (Num 50) = Num ln"
    "js_mul (js_sub (Num pn) (Num 1)) (Num ln) = Num s"
    "0 \<le> s"
    "ps = page_of (nat s) ln (newest_first (matching d w))"
    "pg = \<lparr>pg_page = Some pn, pg_limit = Some ln, pg_total = length (matching d w),
           pg_pages = js_ceil_div (length (matching d w)) (Num ln)\<rparr>"
    "st = 200"
proof -
  define page where "page = parseInt (or_else (q_page q) ''1'')"
  define limit where "limit = js_min (parseInt (or_else (q_limit q) ''10'')) (Num 50)"
  define skip where "skip = js_mul (js_sub page (Num 1)) limit"
  from assms obtain w where
    w: "apply_session env d sess q (build_where q) = Inr w"
    and f: "post_findMany env d w skip limit = Inr ps"
    and c: "post_count env d w = Inr (pg_total pg)"
    and pg: "pg = \<lparr>pg_page = json_number page, pg_limit = json_number limit,
                    pg_total = pg_total pg, pg_pages = js_ceil_div (pg_total pg) limit\<rparr>"
    and st: "st = 200"
    unfolding GET_def Let_def page_def limit_def skip_def internal_error_def
    by (auto split: sum.splits)
  from f obtain s ln where
    valid: "where_valid w" and sk: "skip = Num s" and lm: "limit = Num ln" and nonneg: "0 \<le> s"
    and ps: "ps = page_of (nat s) ln (newest_first (matching d w))"
    unfolding post_findMany_def
    by (cases skip; cases limit) (auto split: if_splits)
  from sk obtain x where "js_sub page (Num 1) = Num x"
    unfolding skip_def using js_mul_NumD by blast
  then obtain pn where pn: "page = Num pn"
    using js_sub_NumD by blast
  from c have tot: "pg_total pg = length (matching d w)"
    unfolding post_count_def by (auto split: if_splits)
  have pg': "pg = \<lparr>pg_page = Some pn, pg_limit = Some ln, pg_total = length (matching d w),
           pg_pages = js_ceil_div (length (matching d w)) (Num ln)\<rparr>"
    using pg pn lm tot by (simp add: json_number_def)
  show ?thesis
  proof (rule that [of w pn ln s])
    show "apply_session env d sess q (build_where q) = Inr w" by (rule w)
    show "where_valid w" by (rule valid)
    show "parseInt (or_else (q_page q) ''1'') = Num pn" using pn by (simp add: page_def)
    show "js_min (parseInt (or_else (q_limit q) ''10'')) (Num 50) = Num ln"
      using lm by (simp add: limit_def)
    show "js_mul (js_sub (Num pn) (Num 1)) (Num ln) = Num s"
      using sk pn lm by (simp add: skip_def)
    show "0 \<le> s" by (rule nonneg)
    show "ps = page_of (nat s) ln (newest_first (matching d w))" by (rule ps)
    show "pg = \<lparr>pg_page = Some pn, pg_limit = Some ln, pg_total = length (matching d w),
           pg_pages = js_ceil_div (length (matching d w)) (Num ln)\<rparr>" by (rule pg')
    show "st = 200" by (rule st)
  qed
qed

lemma matching_base:
  "matching d (build_where q) = filter (explicit_filters q) (posts d)"
  by (simp add: matching_def build_where_def where_matches_def explicit_filters_def cong: filter_cong)

lemma matching_public:
  "matching d ((build_where q)\<lparr>w_visibility := Some (visibility_name PUBLIC)\<rparr>) =
   filter (\<lambda>p. \<not> p_isDraft p \<and> p_visibility p = PUBLIC
      \<and> key_ok (truthy (q_category q)) (p_category p)
      \<and> key_ok (truthy (q_userId q)) (p_userId p)) (posts d)"
proof -
  have "visibility_name v = ''PUBLIC'' \<longleftrightarrow> v = PUBLIC" for v by (cases v) simp_all
  then show ?thesis
    by (simp add: matching_def build_where_def where_matches_def key_ok_def cong: filter_cong)
qed

lemma visible_to_iff: "(\<exists>c \<in> set (visible_to uid). cond_holds d p c) = may_see d uid p"
  by (simp add: visible_to_def may_see_def follows_owner_def)

lemma matching_visible_to:
  "matching d ((build_where q)\<lparr>w_OR := Some (visible_to uid)\<rparr>) =
   filter (\<lambda>p. explicit_filters q p \<and> may_see d uid p) (posts d)"
  by (simp add: matching_def where_matches_def visible_to_iff build_where_def
      explicit_filters_def cong: filter_cong)

text \<open>
  \<open>parseInt\<close> at work: a sign and trailing text, a hexadecimal prefix, no digit, a
  no-break space in front, a value between two doubles, and a value beyond the largest
  double.
\<close>

lemma parseInt_samples:
  "parseInt '' -7px'' = Num (- 7)"
  "parseInt ''0x1F'' = Num 31"
  "parseInt ''abc'' = NaN"
  "parseInt ([CHR 0xC2, CHR 0xA0] @ ''10'') = Num 10"
  "parseInt ''-9007199254740993'' = Num (- 9007199254740992)"
  "parseInt (replicate 310 (CHR ''9'')) = PosInf"
  by code_simp+

lemma no_break_space_limit:
  "GET quiet_env demo_db None (no_query\<lparr>q_limit := Some ([CHR 0xC2, CHR 0xA0] @ ''10'')\<rparr>) =
     Response 200 (Listing [bob_public]
       \<lparr>pg_page = Some 1, pg_limit = Some 10, pg_total = 1, pg_pages = Some 1\<rparr>)"
  by code_simp

section \<open>Facts about the creation\<close>

lemma process_file_step:
  "movedFiles (process_file env s3 uid pid vis r f) =
     movedFiles r @ (case moved_url s3 uid pid vis (f, r) of None \<Rightarrow> [] | Some u \<Rightarrow> [u])"
  "images (r_db (process_file env s3 uid pid vis r f)) =
     images (r_db r) @ (case recorded_image env s3 uid pid vis (f, r) of None \<Rightarrow> [] | Some i \<Rightarrow> [i])"
  "reported (process_file env s3 uid pid vis r f) =
     reported r @ (if recorded_image env s3 uid pid vis (f, r) = None then [fileName f] else [])"
  "posts (r_db (process_file env s3 uid pid vis r f)) = posts (r_db r)"
  "users (r_db (process_file env s3 uid pid vis r f)) = users (r_db r)"
  "follows (r_db (process_file env s3 uid pid vis r f)) = follows (r_db r)"
  by (auto simp: process_file_def moved_url_def recorded_image_def image_create_def
      split: sum.splits prod.splits)

lemma process_files_Cons:
  "process_files env s3 uid pid vis r (f # fs) =
     process_files env s3 uid pid vis (process_file env s3 uid pid vis r f) fs"
  by (simp add: process_files_def)

lemma process_files_Nil: "process_files env s3 uid pid vis r [] = r"
  by (simp add: process_files_def)

lemma process_files_moved:
  "movedFiles (process_files env s3 uid pid vis r fs) =
     movedFiles r @ List.map_filter (moved_url s3 uid pid vis) (runs_before env s3 uid pid vis r fs)"
proof (induction fs arbitrary: r)
  case Nil
  show ?case by (simp add: process_files_Nil)
next
  case (Cons f fs)
  show ?case
    by (simp add: process_files_Cons Cons.IH process_file_step split: option.splits)
qed

lemma process_files_images:
  "images (r_db (process_files env s3 uid pid vis r fs)) =
     images (r_db r) @
       List.map_filter (recorded_image env s3 uid pid vis) (runs_before env s3 uid pid vis r fs)"
proof (induction fs arbitrary: r)
  case Nil
  show ?case by (simp add: process_files_Nil)
next
  case (Cons f fs)
  show ?case
    by (simp add: process_files_Cons Cons.IH process_file_step split: option.splits)
qed

lemma process_files_reported:
  "reported (process_files env s3 uid pid vis r fs) =
     reported r @ map (fileName \<circ> fst)
       (filter (\<lambda>fr. recorded_image env s3 uid pid vis fr = None)
          (runs_before env s3 uid pid vis r fs))"
proof (induction fs arbitrary: r)
  case Nil
  show ?case by (simp add: process_files_Nil)
next
  case (Cons f fs)
  show ?case
    by (simp add: process_files_Cons Cons.IH process_file_step)
qed

lemma process_files_rest:
  "posts (r_db (process_files env s3 uid pid vis r fs)) = posts (r_db r)"
  "users (r_db (process_files env s3 uid pid vis r fs)) = users (r_db r)"
  "follows (r_db (process_files env s3 uid pid vis r fs)) = follows (r_db r)"
  by (induction fs arbitrary: r) (simp_all add: process_files_Nil process_files_Cons process_file_step)

lemma length_runs_before: "length (runs_before env s3 uid pid vis r fs) = length fs"
  by (induction fs arbitrary: r) simp_all

lemma map_fst_runs_before: "map fst (runs_before env s3 uid pid vis r fs) = fs"
  by (induction fs arbitrary: r) simp_all

lemma POST_createdE:
  assumes "POST env s3 st d sess b = (Response 200 bd, r')"
  obtains email u p d1 fc up d' where
    "truthy (session_email sess) = Some email"
    "\<not> missing_required b"
    "user_findUnique env d email = Inr (Some u)"
    "post_create env d (new_post_data u b) = Inr (p, d1)"
    "cover_from_hint s3 (u_id u) (p_id p) (b_visibility b) (b_coverImage b) (files_of b) = Inr fc"
    "post_update env
       (r_db (process_files env s3 (u_id u) (p_id p) (b_visibility b) (fresh_run st d1) (files_of b)))
       (p_id p)
       (pick_cover fc (movedFiles
          (process_files env s3 (u_id u) (p_id p) (b_visibility b) (fresh_run st d1) (files_of b))))
     = Inr (up, d')"
    "r' = (process_files env s3 (u_id u) (p_id p) (b_visibility b) (fresh_run st d1) (files_of b))
            \<lparr>r_db := d'\<rparr>"
    "bd = Created up (filter (\<lambda>i. i_postId i = p_id p) (images d'))"
  using assms
  by (auto simp: POST_def file_processing_def Let_def internal_error_def
      split: option.splits if_splits sum.splits prod.splits)

lemma post_update_result:
  assumes "post_update env d pid cover = Inr (up, d')"
  shows "p_coverImage up = cover" "p_id up = pid" "images d' = images d"
        "users d' = users d" "follows d' = follows d"
  using assms
  by (auto simp: post_update_def find_Some_iff split: if_splits option.splits)

lemma post_create_result:
  assumes "post_create env d pd = Inr (p, d1)"
  shows "posts d1 = posts d @ [p]" "images d1 = images d" "users d1 = users d"
        "follows d1 = follows d" "p_id p = new_post_id env d"
        "p_coverImage p = Some (pd_coverImage pd)" "p_userId p = pd_userId pd"
  using assms
  by (auto simp: post_create_def Let_def split: if_splits option.splits)

lemma file_processing_thrown:
  assumes "file_processing env s3 st d1 uid pid b fs = (Inl e, r)"
  shows "r = process_files env s3 uid pid (b_visibility b) (fresh_run st d1) fs"
  using assms
  by (auto simp: file_processing_def Let_def split: sum.splits prod.splits)


lemma length_map_filter_split:
  "length (List.map_filter g xs) + length (filter (\<lambda>x. g x = None) xs) = length xs"
  by (induction xs) (auto simp: split: option.splits)

lemma recorded_image_moved:
  assumes "recorded_image env s3 uid pid vis fr = Some i"
  shows "moved_url s3 uid pid vis fr = Some (i_url i) \<and> i_postId i = pid"
  using assms by (auto simp: recorded_image_def split: option.splits if_splits)

lemma recorded_when_inserts_succeed:
  assumes "\<forall>dd im. \<not> db_fails env dd (OpImageCreate im)"
  shows "map i_url (List.map_filter (recorded_image env s3 uid pid vis) xs) =
         List.map_filter (moved_url s3 uid pid vis) xs"
  using assms
  by (induction xs) (auto simp: recorded_image_def split: option.splits)


lemma final_url_nonempty: "final_url s3 key \<noteq> []"
  by (simp add: final_url_def)


lemma cover_from_hint_cases:
  assumes "cover_from_hint s3 uid pid vis hint fs = Inr fc"
  shows "(fc = [] \<and> (truthy hint = None \<or> (\<exists>c. truthy hint = Some c \<and> find_cover_file c fs = None)))
       \<or> (\<exists>c f key. truthy hint = Some c \<and> find_cover_file c fs = Some f
             \<and> generateFinalKey s3 uid pid (fileName f) vis = Inr key \<and> fc = final_url s3 key)"
  using assms
  by (auto simp: cover_from_hint_def split: option.splits sum.splits)


lemma starts_with_iff: "starts_with s n \<longleftrightarrow> (\<exists>b. s = n @ b)"
proof (induction s n rule: starts_with.induct)
  case (1 s)
  show ?case by simp
next
  case (2 c cs)
  show ?case by simp
next
  case (3 x xs c cs)
  then show ?case by auto
qed

lemma js_includes_iff: "js_includes s n \<longleftrightarrow> (\<exists>a b. s = a @ n @ b)"
proof (induction s)
  case Nil
  show ?case by auto
next
  case (Cons x xs)
  show ?case
  proof
    assume "js_includes (x # xs) n"
    then consider "starts_with (x # xs) n" | "js_includes xs n" by auto
    then show "\<exists>a b. x # xs = a @ n @ b"
    proof cases
      case 1
      then obtain b where "x # xs = n @ b" by (auto simp: starts_with_iff)
      then have "x # xs = [] @ n @ b" by simp
      then show ?thesis by blast
    next
      case 2
      then obtain a b where "xs = a @ n @ b" using Cons.IH by blast
      then have "x # xs = (x # a) @ n @ b" by simp
      then show ?thesis by blast
    qed
  next
    assume "\<exists>a b. x # xs = a @ n @ b"
    then obtain a b where e: "x # xs = a @ n @ b" by blast
    show "js_includes (x # xs) n"
    proof (cases a)
      case Nil
      with e have "starts_with (x # xs) n" by (auto simp: starts_with_iff)
      then show ?thesis by simp
    next
      case (Cons y ys)
      with e have "xs = ys @ n @ b" by simp
      then have "js_includes xs n" using Cons.IH by blast
      then show ?thesis by simp
    qed
  qed
qed

lemma post_update_Inr_iff:
  assumes "\<exists>x \<in> set (posts d). p_id x = pid"
  shows "(\<exists>up d'. post_update env d pid cover = Inr (up, d')) \<longleftrightarrow>
         \<not> db_fails env d (OpPostUpdate pid cover)"
proof -
  from assms have "find (\<lambda>x. p_id x = pid) (posts d) \<noteq> None"
    by (auto simp: find_None_iff)
  then show ?thesis
    by (auto simp: post_update_def split: option.splits)
qed

lemma POST_after_create:
  assumes "truthy (session_email sess) = Some email"
      and "\<not> missing_required b"
      and "user_findUnique env d email = Inr (Some u)"
      and "post_create env d (new_post_data u b) = Inr (p, d1)"
  shows "POST env s3 st d sess b =
           (case file_processing env s3 st d1 (u_id u) (p_id p) b (files_of b) of
              (Inr (updatedPost, imgs), r) \<Rightarrow> (Response 200 (Created updatedPost imgs), r)
            | (Inl e, r) \<Rightarrow>
                (case post_delete env (r_db r) (p_id p) of
                   Inl e' \<Rightarrow> (internal_error, r)
                 | Inr d3 \<Rightarrow>
                     (Response 500 (Failure ''Failed to process uploaded files''),
                      r\<lparr>r_db := d3\<rparr>)))"
  using assms by (simp add: POST_def Let_def)

lemma cover_from_hint_throws:
  assumes "cover_from_hint s3 uid pid vis hint fs = Inl e"
  shows "\<exists>c f. truthy hint = Some c \<and> find_cover_file c fs = Some f
           \<and> generateFinalKey s3 uid pid (fileName f) vis = Inl e"
  using assms
  by (auto simp: cover_from_hint_def split: option.splits sum.splits)

lemma last_segment_iff:
  "last_segment s = seg \<longleftrightarrow>
     (\<exists>dir. s = dir @ seg \<and> CHR ''/'' \<notin> set seg \<and> (dir = [] \<or> last dir = CHR ''/''))"
proof
  assume e: "last_segment s = seg"
  define P where "P = (\<lambda>c. c \<noteq> CHR ''/'')"
  define dir where "dir = rev (dropWhile P (rev s))"
  have seg: "seg = rev (takeWhile P (rev s))"
    using e by (simp add: last_segment_def P_def)
  have "rev (dropWhile P (rev s)) @ rev (takeWhile P (rev s)) =
          rev (takeWhile P (rev s) @ dropWhile P (rev s))"
    by (simp only: rev_append)
  also have "\<dots> = rev (rev s)" by (simp only: takeWhile_dropWhile_id)
  finally have s: "s = dir @ seg" unfolding dir_def seg by simp
  have noslash: "CHR ''/'' \<notin> set seg"
    unfolding seg using set_takeWhileD [of "CHR ''/''" P "rev s"] by (auto simp: P_def)
  have "dir = [] \<or> last dir = CHR ''/''"
  proof (cases "dropWhile P (rev s)")
    case Nil
    then show ?thesis by (simp add: dir_def)
  next
    case (Cons x xs)
    then have "\<not> P x" using hd_dropWhile [of P "rev s"] by simp
    then have "x = CHR ''/''" by (simp add: P_def)
    then show ?thesis using Cons by (simp add: dir_def)
  qed
  with s noslash show "\<exists>dir. s = dir @ seg \<and> CHR ''/'' \<notin> set seg \<and> (dir = [] \<or> last dir = CHR ''/'')"
    by blast
next
  assume "\<exists>dir. s = dir @ seg \<and> CHR ''/'' \<notin> set seg \<and> (dir = [] \<or> last dir = CHR ''/'')"
  then obtain dir where s: "s = dir @ seg" and noslash: "CHR ''/'' \<notin> set seg"
    and dir: "dir = [] \<or> last dir = CHR ''/''" by blast
  define P where "P = (\<lambda>c. c \<noteq> CHR ''/'')"
  have all: "\<forall>x \<in> set (rev seg). P x" using noslash by (auto simp: P_def)
  have stop: "takeWhile P (rev dir) = []"
  proof (cases "dir = []")
    case True
    then show ?thesis by simp
  next
    case False
    with dir have "last dir = CHR ''/''" by simp
    with False have "hd (rev dir) = CHR ''/''" by (simp add: hd_rev)
    with False show ?thesis by (cases "rev dir") (auto simp: P_def)
  qed
  have "takeWhile P (rev seg @ rev dir) = rev seg @ takeWhile P (rev dir)"
    using all by (intro takeWhile_append2) simp
  then have "takeWhile P (rev s) = rev seg"
    unfolding s using stop by simp
  then show "last_segment s = seg" by (simp add: last_segment_def P_def)
qed

lemma hint_names_iff: "hint_names c f \<longleftrightarrow> js_includes c (last_segment (s3Key f))"
proof
  assume "hint_names c f"
  then obtain dir seg a z where k: "s3Key f = dir @ seg" "CHR ''/'' \<notin> set seg"
    "dir = [] \<or> last dir = CHR ''/''" and c: "c = a @ seg @ z"
    unfolding hint_names_def by blast
  from k have "last_segment (s3Key f) = seg" unfolding last_segment_iff by blast
  with c show "js_includes c (last_segment (s3Key f))" unfolding js_includes_iff by blast
next
  assume "js_includes c (last_segment (s3Key f))"
  then obtain a z where c: "c = a @ last_segment (s3Key f) @ z"
    unfolding js_includes_iff by blast
  have "last_segment (s3Key f) = last_segment (s3Key f)" by simp
  then obtain dir where "s3Key f = dir @ last_segment (s3Key f)"
    "CHR ''/'' \<notin> set (last_segment (s3Key f))" "dir = [] \<or> last dir = CHR ''/''"
    unfolding last_segment_iff by blast
  with c show "hint_names c f" unfolding hint_names_def by blast
qed

lemma find_first:
  assumes "xs = pre @ f # post" and "P f" and "\<forall>g \<in> set pre. \<not> P g"
  shows "find P xs = Some f"
  using assms by (induction pre arbitrary: xs) auto

lemma find_cover_file_first:
  assumes "fs = pre @ f # post" and "hint_names c f" and "\<forall>g \<in> set pre. \<not> hint_names c g"
  shows "find_cover_file c fs = Some f"
  unfolding find_cover_file_def
  using assms by (intro find_first [of fs pre f post]) (auto simp: hint_names_iff)

lemma find_cover_file_none:
  assumes "\<forall>g \<in> set fs. \<not> hint_names c g"
  shows "find_cover_file c fs = None"
  unfolding find_cover_file_def using assms by (auto simp: find_None_iff hint_names_iff)

section \<open>Claims about the listing\<close>

text \<open>
  Claim C2. For a listing request with no authenticated session (no session, no user, or an
  absent or empty email), the visibility key of the query is set to \<open>PUBLIC\<close> whatever the
  \<open>visibility\<close> parameter says; every post of a returned page is public, and the total counts
  exactly the public non-draft posts that pass the category and owner filters.
\<close>

theorem unauthenticated_listing_public_only:
  assumes "truthy (session_email sess) = None"
  shows "apply_session env d sess q (build_where q) =
           Inr ((build_where q)\<lparr>w_visibility := Some (visibility_name PUBLIC)\<rparr>)
       \<and> (\<forall>st ps pg. GET env d sess q = Response st (Listing ps pg) \<longrightarrow>
             (\<forall>p \<in> set ps. p_visibility p = PUBLIC)
           \<and> pg_total pg = length (filter (\<lambda>p. \<not> p_isDraft p \<and> p_visibility p = PUBLIC
                 \<and> key_ok (truthy (q_category q)) (p_category p)
                 \<and> key_ok (truthy (q_userId q)) (p_userId p)) (posts d)))"
proof -
  have w: "apply_session env d sess q (build_where q) =
           Inr ((build_where q)\<lparr>w_visibility := Some (visibility_name PUBLIC)\<rparr>)"
    using assms by (simp add: apply_session_def)
  have "(\<forall>p \<in> set ps. p_visibility p = PUBLIC)
           \<and> pg_total pg = length (filter (\<lambda>p. \<not> p_isDraft p \<and> p_visibility p = PUBLIC
                 \<and> key_ok (truthy (q_category q)) (p_category p)
                 \<and> key_ok (truthy (q_userId q)) (p_userId p)) (posts d))"
    if g: "GET env d sess q = Response st (Listing ps pg)" for st ps pg
  proof -
    from g obtain w' pn ln s where
      a: "apply_session env d sess q (build_where q) = Inr w'"
      and ps: "ps = page_of (nat s) ln (newest_first (matching d w'))"
      and pg: "pg = \<lparr>pg_page = Some pn, pg_limit = Some ln, pg_total = length (matching d w'),
           pg_pages = js_ceil_div (length (matching d w')) (Num ln)\<rparr>"
      by (rule GET_listingE)
    from a w have w': "w' = (build_where q)\<lparr>w_visibility := Some (visibility_name PUBLIC)\<rparr>"
      by simp
    have "set ps \<subseteq> set (matching d w')"
      using set_page_of [of _ _ "newest_first (matching d w')"] ps
      by (simp add: newest_first_def)
    then have "\<forall>p \<in> set ps. p_visibility p = PUBLIC"
      unfolding w' matching_public by auto
    moreover have "pg_total pg = length (matching d w')" using pg by simp
    ultimately show ?thesis unfolding w' matching_public by simp
  qed
  with w show ?thesis by blast
qed

theorem unauthenticated_listing_public_only_witness:
  "truthy (session_email None) = None
   \<and> GET quiet_env demo_db None (no_query\<lparr>q_visibility := Some ''PRIVATE''\<rparr>) =
       Response 200 (Listing [bob_public]
         \<lparr>pg_page = Some 1, pg_limit = Some 10, pg_total = 1, pg_pages = Some 1\<rparr>)
   \<and> p_visibility bob_public = PUBLIC"
proof -
  have h: "truthy (session_email None) = None" by (simp add: truthy_def session_email_def)
  have g: "GET quiet_env demo_db None (no_query\<lparr>q_visibility := Some ''PRIVATE''\<rparr>) =
       Response 200 (Listing [bob_public]
         \<lparr>pg_page = Some 1, pg_limit = Some 10, pg_total = 1, pg_pages = Some 1\<rparr>)"
    by code_simp
  from unauthenticated_listing_public_only
         [OF h, of quiet_env demo_db "no_query\<lparr>q_visibility := Some ''PRIVATE''\<rparr>"] g
  have "\<forall>p \<in> set [bob_public]. p_visibility p = PUBLIC" by blast
  then have "p_visibility bob_public = PUBLIC" by simp
  with h g show ?thesis by blast
qed

text \<open>
  Claim C1, as the code has it. For a listing request by an authenticated caller whose user
  row is found, with no \<open>userId\<close> filter, the disjunction (public, or the caller's own, or for
  followers and the caller follows the owner) is added to the query beside the explicit
  filters, not in place of them: the page is cut from exactly the non-draft posts that pass
  the explicit \<open>visibility\<close> and \<open>category\<close> filters and the disjunction, and the total counts
  them. So no returned post is a draft, a returned \<open>PRIVATE\<close> post is the caller's own, and a
  returned \<open>FOLLOWERS\<close> post is the caller's own or from an owner the caller follows. With no
  \<open>visibility\<close> and no \<open>category\<close> parameter the matching posts are all non-draft posts that
  satisfy the disjunction.
\<close>

theorem authenticated_listing_visibility:
  assumes auth: "truthy (session_email sess) = Some email"
      and no_owner: "truthy (q_userId q) = None"
      and found: "user_findUnique env d email = Inr (Some u)"
      and ok: "GET env d sess q = Response st (Listing ps pg)"
  shows "(\<exists>s t. ps = page_of s t (newest_first
                   (filter (\<lambda>p. explicit_filters q p \<and> may_see d (u_id u) p) (posts d))))
       \<and> pg_total pg =
           length (filter (\<lambda>p. explicit_filters q p \<and> may_see d (u_id u) p) (posts d))
       \<and> (\<forall>p \<in> set ps. \<not> p_isDraft p \<and> may_see d (u_id u) p)
       \<and> (\<forall>p \<in> set ps. p_visibility p = PRIVATE \<longrightarrow> p_userId p = u_id u)
       \<and> (\<forall>p \<in> set ps. p_visibility p = FOLLOWERS \<longrightarrow>
             p_userId p = u_id u \<or> follows_owner d (u_id u) p)
       \<and> (truthy (q_visibility q) = None \<and> truthy (q_category q) = None \<longrightarrow>
             pg_total pg = length (filter (\<lambda>p. \<not> p_isDraft p \<and> may_see d (u_id u) p) (posts d)))"
proof -
  let ?P = "\<lambda>p. explicit_filters q p \<and> may_see d (u_id u) p"
  from ok obtain w pn ln s where
    a: "apply_session env d sess q (build_where q) = Inr w"
    and ps: "ps = page_of (nat s) ln (newest_first (matching d w))"
    and pg: "pg = \<lparr>pg_page = Some pn, pg_limit = Some ln, pg_total = length (matching d w),
           pg_pages = js_ceil_div (length (matching d w)) (Num ln)\<rparr>"
    by (rule GET_listingE)
  have "apply_session env d sess q (build_where q) =
          Inr ((build_where q)\<lparr>w_OR := Some (visible_to (u_id u))\<rparr>)"
    using auth no_owner found by (simp add: apply_session_def)
  with a have w: "w = (build_where q)\<lparr>w_OR := Some (visible_to (u_id u))\<rparr>" by simp
  have m: "matching d w = filter ?P (posts d)"
    unfolding w by (rule matching_visible_to)
  have page: "\<exists>s t. ps = page_of s t (newest_first (filter ?P (posts d)))"
    using ps m by auto
  have tot: "pg_total pg = length (filter ?P (posts d))"
    using pg m by simp
  have sub: "set ps \<subseteq> {p \<in> set (posts d). ?P p}"
    using set_page_of [of "nat s" ln "newest_first (matching d w)"] ps m
    by (auto simp: newest_first_def)
  have vis: "\<forall>p \<in> set ps. \<not> p_isDraft p \<and> may_see d (u_id u) p"
    using sub by (auto simp: explicit_filters_def)
  have priv: "\<forall>p \<in> set ps. p_visibility p = PRIVATE \<longrightarrow> p_userId p = u_id u"
    using vis by (auto simp: may_see_def)
  have foll: "\<forall>p \<in> set ps. p_visibility p = FOLLOWERS \<longrightarrow>
             p_userId p = u_id u \<or> follows_owner d (u_id u) p"
    using vis by (auto simp: may_see_def)
  have plain: "truthy (q_visibility q) = None \<and> truthy (q_category q) = None \<longrightarrow>
             pg_total pg = length (filter (\<lambda>p. \<not> p_isDraft p \<and> may_see d (u_id u) p) (posts d))"
    using tot no_owner by (simp add: explicit_filters_def key_ok_def)
  from page tot vis priv foll plain show ?thesis by blast
qed

theorem authenticated_listing_visibility_witness:
  "truthy (session_email (signed_in ''a@x'')) = Some ''a@x''
   \<and> truthy (q_userId no_query) = None
   \<and> user_findUnique quiet_env demo_db ''a@x'' = Inr (Some alice)
   \<and> GET quiet_env demo_db (signed_in ''a@x'') no_query =
       Response 200 (Listing [alice_private, bob_followers, bob_public]
         \<lparr>pg_page = Some 1, pg_limit = Some 10, pg_total = 3, pg_pages = Some 1\<rparr>)
   \<and> may_see demo_db ''u1'' bob_followers
   \<and> \<not> may_see demo_db ''u1'' carol_followers
   \<and> \<not> may_see demo_db ''u1'' bob_private"
proof -
  have h1: "truthy (session_email (signed_in ''a@x'')) = Some ''a@x''" by code_simp
  have h2: "truthy (q_userId no_query) = None" by code_simp
  have h3: "user_findUnique quiet_env demo_db ''a@x'' = Inr (Some alice)" by code_simp
  have h4: "GET quiet_env demo_db (signed_in ''a@x'') no_query =
       Response 200 (Listing [alice_private, bob_followers, bob_public]
         \<lparr>pg_page = Some 1, pg_limit = Some 10, pg_total = 3, pg_pages = Some 1\<rparr>)"
    by code_simp
  have "\<forall>p \<in> set [alice_private, bob_followers, bob_public].
          \<not> p_isDraft p \<and> may_see demo_db (u_id alice) p"
    using authenticated_listing_visibility [OF h1 h2 h3 h4] by blast
  moreover have "u_id alice = ''u1''" by (simp add: alice_def)
  ultimately have a: "may_see demo_db ''u1'' bob_followers" by simp
  have b: "\<not> may_see demo_db ''u1'' carol_followers" by code_simp
  have c: "\<not> may_see demo_db ''u1'' bob_private" by code_simp
  from h1 h2 h3 h4 a b c show ?thesis by blast
qed

text \<open>
  The claim as it is written says that the disjunction replaces the visibility constraint
  also when a \<open>visibility\<close> parameter is supplied, so that every public post and every post
  of the caller is returned. Alice asks for \<open>visibility=FOLLOWERS\<close>: the answer holds bob's
  followers-only post alone, neither bob's public post nor her own private one.
\<close>

theorem explicit_visibility_kept_counterexample:
  "GET quiet_env demo_db (signed_in ''a@x'') (no_query\<lparr>q_visibility := Some ''FOLLOWERS''\<rparr>) =
     Response 200 (Listing [bob_followers]
       \<lparr>pg_page = Some 1, pg_limit = Some 10, pg_total = 1, pg_pages = Some 1\<rparr>)
   \<and> bob_public \<in> set (posts demo_db)
   \<and> p_visibility bob_public = PUBLIC \<and> \<not> p_isDraft bob_public
   \<and> bob_public \<notin> set [bob_followers]
   \<and> alice_private \<in> set (posts demo_db)
   \<and> p_userId alice_private = u_id alice \<and> \<not> p_isDraft alice_private
   \<and> alice_private \<notin> set [bob_followers]"
  by code_simp

text \<open>
  Claim C9. For a listing request by an authenticated caller that carries a \<open>userId\<close>
  filter, the query is left as the explicit filters built it: no disjunction is added and
  the user row of the caller is not even read. The page is cut from that user's non-draft
  posts that pass the explicit \<open>visibility\<close> and \<open>category\<close> filters, of whatever tier, and
  the answer is the same for every authenticated caller.
\<close>

theorem owner_filter_skips_visibility_rules:
  assumes auth: "truthy (session_email sess) = Some email"
      and owner: "truthy (q_userId q) = Some owner"
  shows "apply_session env d sess q (build_where q) = Inr (build_where q)
       \<and> w_OR (build_where q) = None
       \<and> matching d (build_where q) =
           filter (\<lambda>p. \<not> p_isDraft p \<and> p_userId p = owner
                     \<and> key_ok (truthy (q_visibility q)) (visibility_name (p_visibility p))
                     \<and> key_ok (truthy (q_category q)) (p_category p)) (posts d)
       \<and> (\<forall>st ps pg. GET env d sess q = Response st (Listing ps pg) \<longrightarrow>
             (\<exists>s t. ps = page_of s t (newest_first (matching d (build_where q))))
             \<and> pg_total pg = length (matching d (build_where q)))
       \<and> (\<forall>sess' email'. truthy (session_email sess') = Some email' \<longrightarrow>
             GET env d sess' q = GET env d sess q)"
proof -
  have a: "apply_session env d sess' q (build_where q) = Inr (build_where q)"
    if "truthy (session_email sess') = Some email'" for sess' email'
    using that owner by (simp add: apply_session_def)
  have b: "w_OR (build_where q) = None" by (simp add: build_where_def)
  have c: "matching d (build_where q) =
           filter (\<lambda>p. \<not> p_isDraft p \<and> p_userId p = owner
                     \<and> key_ok (truthy (q_visibility q)) (visibility_name (p_visibility p))
                     \<and> key_ok (truthy (q_category q)) (p_category p)) (posts d)"
    unfolding matching_base using owner
    by (auto simp: explicit_filters_def key_ok_def intro!: filter_cong)
  have e: "(\<exists>s t. ps = page_of s t (newest_first (matching d (build_where q))))
             \<and> pg_total pg = length (matching d (build_where q))"
    if g: "GET env d sess q = Response st (Listing ps pg)" for st ps pg
  proof -
    from g obtain w pn ln s where
      aw: "apply_session env d sess q (build_where q) = Inr w"
      and ps: "ps = page_of (nat s) ln (newest_first (matching d w))"
      and pg: "pg = \<lparr>pg_page = Some pn, pg_limit = Some ln, pg_total = length (matching d w),
           pg_pages = js_ceil_div (length (matching d w)) (Num ln)\<rparr>"
      by (rule GET_listingE)
    from aw a [OF auth] have "w = build_where q" by simp
    with ps pg show ?thesis by auto
  qed
  have f: "GET env d sess' q = GET env d sess q"
    if "truthy (session_email sess') = Some email'" for sess' email'
    using a [OF that] a [OF auth] by (simp add: GET_def)
  from a [OF auth] b c e f show ?thesis by blast
qed

theorem owner_filter_skips_visibility_rules_witness:
  "truthy (session_email (signed_in ''c@x'')) = Some ''c@x''
   \<and> truthy (q_userId (no_query\<lparr>q_userId := Some ''u2''\<rparr>)) = Some ''u2''
   \<and> GET quiet_env demo_db (signed_in ''c@x'') (no_query\<lparr>q_userId := Some ''u2''\<rparr>) =
       Response 200 (Listing [bob_private, bob_followers, bob_public]
         \<lparr>pg_page = Some 1, pg_limit = Some 10, pg_total = 3, pg_pages = Some 1\<rparr>)
   \<and> apply_session quiet_env demo_db (signed_in ''c@x'') (no_query\<lparr>q_userId := Some ''u2''\<rparr>)
         (build_where (no_query\<lparr>q_userId := Some ''u2''\<rparr>)) =
       Inr (build_where (no_query\<lparr>q_userId := Some ''u2''\<rparr>))
   \<and> p_visibility bob_private = PRIVATE \<and> p_userId bob_private = ''u2''
   \<and> \<not> follows_owner demo_db ''u3'' bob_private"
proof -
  let ?q = "no_query\<lparr>q_userId := Some ''u2''\<rparr>"
  have h1: "truthy (session_email (signed_in ''c@x'')) = Some ''c@x''" by code_simp
  have h2: "truthy (q_userId ?q) = Some ''u2''" by code_simp
  have g: "GET quiet_env demo_db (signed_in ''c@x'') ?q =
       Response 200 (Listing [bob_private, bob_followers, bob_public]
         \<lparr>pg_page = Some 1, pg_limit = Some 10, pg_total = 3, pg_pages = Some 1\<rparr>)"
    by code_simp
  have a: "apply_session quiet_env demo_db (signed_in ''c@x'') ?q (build_where ?q) =
       Inr (build_where ?q)"
    using owner_filter_skips_visibility_rules [OF h1 h2, of quiet_env demo_db] by blast
  have r: "p_visibility bob_private = PRIVATE \<and> p_userId bob_private = ''u2''
      \<and> \<not> follows_owner demo_db ''u3'' bob_private"
    by code_simp
  from h1 h2 g a r show ?thesis by blast
qed

text \<open>
  Claim C10. For a listing request with a session whose email belongs to no user row, and
  with no \<open>userId\<close> filter, nothing is added to the query: the page is cut from the non-draft
  posts that pass the explicit filters, of every visibility tier and every owner.
\<close>

theorem unknown_user_listing_unrestricted:
  assumes auth: "truthy (session_email sess) = Some email"
      and no_owner: "truthy (q_userId q) = None"
      and missing: "user_findUnique env d email = Inr None"
  shows "apply_session env d sess q (build_where q) = Inr (build_where q)
       \<and> w_OR (build_where q) = None
       \<and> w_visibility (build_where q) = truthy (q_visibility q)
       \<and> matching d (build_where q) =
           filter (\<lambda>p. \<not> p_isDraft p
                     \<and> key_ok (truthy (q_visibility q)) (visibility_name (p_visibility p))
                     \<and> key_ok (truthy (q_category q)) (p_category p)) (posts d)
       \<and> (\<forall>st ps pg. GET env d sess q = Response st (Listing ps pg) \<longrightarrow>
             (\<exists>s t. ps = page_of s t (newest_first (matching d (build_where q))))
             \<and> pg_total pg = length (matching d (build_where q)))"
proof -
  have a: "apply_session env d sess q (build_where q) = Inr (build_where q)"
    using assms by (simp add: apply_session_def)
  have b: "w_OR (build_where q) = None \<and> w_visibility (build_where q) = truthy (q_visibility q)"
    by (simp add: build_where_def)
  have c: "matching d (build_where q) =
           filter (\<lambda>p. \<not> p_isDraft p
                     \<and> key_ok (truthy (q_visibility q)) (visibility_name (p_visibility p))
                     \<and> key_ok (truthy (q_category q)) (p_category p)) (posts d)"
    unfolding matching_base using no_owner
    by (auto simp: explicit_filters_def key_ok_def intro!: filter_cong)
  have e: "(\<exists>s t. ps = page_of s t (newest_first (matching d (build_where q))))
             \<and> pg_total pg = length (matching d (build_where q))"
    if g: "GET env d sess q = Response st (Listing ps pg)" for st ps pg
  proof -
    from g obtain w pn ln s where
      aw: "apply_session env d sess q (build_where q) = Inr w"
      and ps: "ps = page_of (nat s) ln (newest_first (matching d w))"
      and pg: "pg = \<lparr>pg_page = Some pn, pg_limit = Some ln, pg_total = length (matching d w),
           pg_pages = js_ceil_div (length (matching d w)) (Num ln)\<rparr>"
      by (rule GET_listingE)
    from aw a have "w = build_where q" by simp
    with ps pg show ?thesis by auto
  qed
  from a b c e show ?thesis by blast
qed

theorem unknown_user_listing_unrestricted_witness:
  "truthy (session_email (signed_in ''z@x'')) = Some ''z@x''
   \<and> truthy (q_userId no_query) = None
   \<and> user_findUnique quiet_env demo_db ''z@x'' = Inr None
   \<and> apply_session quiet_env demo_db (signed_in ''z@x'') no_query (build_where no_query) =
       Inr (build_where no_query)
   \<and> GET quiet_env demo_db (signed_in ''z@x'') no_query =
       Response 200
         (Listing [alice_private, carol_followers, bob_private, bob_followers, bob_public]
           \<lparr>pg_page = Some 1, pg_limit = Some 10, pg_total = 5, pg_pages = Some 1\<rparr>)"
proof -
  have h1: "truthy (session_email (signed_in ''z@x'')) = Some ''z@x''" by code_simp
  have h2: "truthy (q_userId no_query) = None" by code_simp
  have h3: "user_findUnique quiet_env demo_db ''z@x'' = Inr None" by code_simp
  have a: "apply_session quiet_env demo_db (signed_in ''z@x'') no_query (build_where no_query) =
       Inr (build_where no_query)"
    using unknown_user_listing_unrestricted [OF h1 h2 h3] by blast
  have g: "GET quiet_env demo_db (signed_in ''z@x'') no_query =
       Response 200
         (Listing [alice_private, carol_followers, bob_private, bob_followers, bob_public]
           \<lparr>pg_page = Some 1, pg_limit = Some 10, pg_total = 5, pg_pages = Some 1\<rparr>)"
    by code_simp
  from h1 h2 h3 a g show ?thesis by blast
qed




section \<open>Claims about the creation\<close>

text \<open>
  Claim C7. For an authenticated creation request whose title, description or category is
  absent or empty, or whose file list is absent or empty, the answer is 400 and nothing has
  run before it: the database and the storage are the ones the request found.
\<close>

theorem missing_fields_rejected:
  assumes auth: "truthy (session_email sess) = Some email"
      and miss: "b_title b = None \<or> b_title b = Some [] \<or> b_description b = None
                 \<or> b_description b = Some [] \<or> b_category b = None \<or> b_category b = Some []
                 \<or> b_files b = None \<or> b_files b = Some []"
  shows "POST env s3 st d sess b =
           (Response 400 (Failure ''Missing required fields''), fresh_run st d)
       \<and> r_db (snd (POST env s3 st d sess b)) = d
       \<and> r_storage (snd (POST env s3 st d sess b)) = st"
proof -
  from miss have "missing_required b"
    by (auto simp: missing_required_def truthy_def)
  with auth have "POST env s3 st d sess b =
           (Response 400 (Failure ''Missing required fields''), fresh_run st d)"
    by (simp add: POST_def Let_def)
  then show ?thesis by (simp add: fresh_run_def)
qed

theorem missing_fields_rejected_witness:
  "truthy (session_email (signed_in ''a@x'')) = Some ''a@x''
   \<and> b_files (demo_payload\<lparr>b_files := Some []\<rparr>) = Some []
   \<and> POST quiet_env demo_s3 both_keys tiny_db (signed_in ''a@x'') (demo_payload\<lparr>b_files := Some []\<rparr>) =
       (Response 400 (Failure ''Missing required fields''), fresh_run both_keys tiny_db)
   \<and> posts (r_db (snd (POST quiet_env demo_s3 both_keys tiny_db (signed_in ''a@x'')
        (demo_payload\<lparr>b_files := Some []\<rparr>)))) = []"
proof -
  let ?b = "demo_payload\<lparr>b_files := Some []\<rparr>"
  have h1: "truthy (session_email (signed_in ''a@x'')) = Some ''a@x''" by code_simp
  have h2: "b_files ?b = Some []" by simp
  have h2': "b_title ?b = None \<or> b_title ?b = Some [] \<or> b_description ?b = None
                 \<or> b_description ?b = Some [] \<or> b_category ?b = None \<or> b_category ?b = Some []
                 \<or> b_files ?b = None \<or> b_files ?b = Some []" using h2 by blast
  note t = missing_fields_rejected [OF h1 h2', of quiet_env demo_s3 both_keys tiny_db]
  have "posts (r_db (snd (POST quiet_env demo_s3 both_keys tiny_db (signed_in ''a@x'') ?b))) = []"
    using t by (simp add: tiny_db_def fresh_run_def)
  with h1 h2 t show ?thesis by blast
qed


text \<open>
  Claim C3, as the code has it. When the block around the loop and the cover-image update
  throws, the answer is 500 and the handler calls \<open>delete\<close> on the post it created. The post
  is still in the table at that moment; when the delete does not throw, no row with its
  identifier is left and the body reads \<open>Failed to process uploaded files\<close>. When the delete
  throws as well, the outer \<open>catch\<close> answers with \<open>Internal server error\<close> and the database
  is as the block left it, the post included.
\<close>

theorem failed_processing_deletes_post:
  assumes auth: "truthy (session_email sess) = Some email"
      and valid: "\<not> missing_required b"
      and user: "user_findUnique env d email = Inr (Some u)"
      and created: "post_create env d (new_post_data u b) = Inr (p, d1)"
      and thrown: "file_processing env s3 st d1 (u_id u) (p_id p) b (files_of b) = (Inl e, r)"
  shows "status (fst (POST env s3 st d sess b)) = 500
       \<and> p \<in> set (posts (r_db r))
       \<and> (\<not> db_fails env (r_db r) (OpPostDelete (p_id p)) \<longrightarrow>
            fst (POST env s3 st d sess b) =
              Response 500 (Failure ''Failed to process uploaded files'')
            \<and> posts (r_db (snd (POST env s3 st d sess b))) =
                filter (\<lambda>x. p_id x \<noteq> p_id p) (posts d)
            \<and> (\<forall>x \<in> set (posts (r_db (snd (POST env s3 st d sess b)))). p_id x \<noteq> p_id p))
       \<and> (db_fails env (r_db r) (OpPostDelete (p_id p)) \<longrightarrow>
            POST env s3 st d sess b = (internal_error, r))"
proof -
  have r: "r = process_files env s3 (u_id u) (p_id p) (b_visibility b) (fresh_run st d1) (files_of b)"
    using thrown by (rule file_processing_thrown)
  have ps: "posts (r_db r) = posts d @ [p]"
    unfolding r using post_create_result(1) [OF created]
    by (simp add: process_files_rest fresh_run_def)
  then have mem: "p \<in> set (posts (r_db r))" by simp
  then have found: "find (\<lambda>x. p_id x = p_id p) (posts (r_db r)) \<noteq> None"
    by (auto simp: find_None_iff)
  have P: "POST env s3 st d sess b =
             (case post_delete env (r_db r) (p_id p) of
                Inl e' \<Rightarrow> (internal_error, r)
              | Inr d3 \<Rightarrow> (Response 500 (Failure ''Failed to process uploaded files''),
                           r\<lparr>r_db := d3\<rparr>))"
    using auth valid user created thrown by (simp add: POST_def Let_def)
  have bad: "POST env s3 st d sess b = (internal_error, r)"
    if "db_fails env (r_db r) (OpPostDelete (p_id p))"
    using that P by (simp add: post_delete_def)
  have good: "POST env s3 st d sess b =
      (Response 500 (Failure ''Failed to process uploaded files''),
       r\<lparr>r_db := (r_db r)\<lparr>posts := filter (\<lambda>x. p_id x \<noteq> p_id p) (posts (r_db r))\<rparr>\<rparr>)"
    if "\<not> db_fails env (r_db r) (OpPostDelete (p_id p))"
    using that P found by (auto simp: post_delete_def split: option.splits)
  have st: "status (fst (POST env s3 st d sess b)) = 500"
    using bad good by (cases "db_fails env (r_db r) (OpPostDelete (p_id p))")
      (simp_all add: internal_error_def)
  have g2: "\<not> db_fails env (r_db r) (OpPostDelete (p_id p)) \<longrightarrow>
            fst (POST env s3 st d sess b) =
              Response 500 (Failure ''Failed to process uploaded files'')
            \<and> posts (r_db (snd (POST env s3 st d sess b))) =
                filter (\<lambda>x. p_id x \<noteq> p_id p) (posts d)
            \<and> (\<forall>x \<in> set (posts (r_db (snd (POST env s3 st d sess b)))). p_id x \<noteq> p_id p)"
    using good ps by auto
  from st mem g2 bad show ?thesis by blast
qed

theorem failed_processing_deletes_post_witness:
  "truthy (session_email (signed_in ''a@x'')) = Some ''a@x''
   \<and> \<not> missing_required demo_payload
   \<and> user_findUnique (failing_env is_update) tiny_db ''a@x'' = Inr (Some alice)
   \<and> p_id (fst (projr (post_create (failing_env is_update) tiny_db
          (new_post_data alice demo_payload)))) = ''p9''
   \<and> fst (POST (failing_env is_update) demo_s3 both_keys tiny_db (signed_in ''a@x'') demo_payload) =
        Response 500 (Failure ''Failed to process uploaded files'')
   \<and> posts (r_db (snd (POST (failing_env is_update) demo_s3 both_keys tiny_db
        (signed_in ''a@x'') demo_payload))) = []"
proof -
  let ?env = "failing_env is_update"
  let ?p = "\<lparr>p_id = ''p9'', p_title = ''t'', p_description = ''d'', p_category = ''ART'',
      p_tags = [], p_visibility = PUBLIC, p_isDraft = False, p_userId = ''u1'',
      p_coverImage = Some [], p_createdAt = 9\<rparr>"
  let ?d1 = "tiny_db\<lparr>posts := [?p]\<rparr>"
  let ?r = "process_files ?env demo_s3 ''u1'' ''p9'' (Some ''PUBLIC'') (fresh_run both_keys ?d1)
              (files_of demo_payload)"
  have h1: "truthy (session_email (signed_in ''a@x'')) = Some ''a@x''" by code_simp
  have h2: "\<not> missing_required demo_payload" by code_simp
  have h3: "user_findUnique ?env tiny_db ''a@x'' = Inr (Some alice)" by code_simp
  have h4: "post_create ?env tiny_db (new_post_data alice demo_payload) = Inr (?p, ?d1)"
    by code_simp
  have h5: "file_processing ?env demo_s3 both_keys ?d1 (u_id alice) (p_id ?p) demo_payload
              (files_of demo_payload) = (Inl PrismaError, ?r)"
    by code_simp
  have nf: "\<not> db_fails ?env (r_db ?r) (OpPostDelete (p_id ?p))"
    by (simp add: failing_env_def is_update_def)
  from failed_processing_deletes_post [OF h1 h2 h3 h4 h5] nf
  have a: "fst (POST ?env demo_s3 both_keys tiny_db (signed_in ''a@x'') demo_payload) =
             Response 500 (Failure ''Failed to process uploaded files'')"
    and b: "posts (r_db (snd (POST ?env demo_s3 both_keys tiny_db (signed_in ''a@x'') demo_payload))) =
             filter (\<lambda>x. p_id x \<noteq> p_id ?p) (posts tiny_db)"
    by blast+
  from b have c: "posts (r_db (snd (POST ?env demo_s3 both_keys tiny_db (signed_in ''a@x'')
       demo_payload))) = []"
    by (simp add: tiny_db_def)
  have d: "p_id (fst (projr (post_create ?env tiny_db (new_post_data alice demo_payload)))) = ''p9''"
    using h4 by simp
  from h1 h2 h3 d a c show ?thesis by blast
qed

text \<open>
  The claim as it is written promises that the post is gone whenever the block throws. Here
  the update of the cover image throws and so does the delete that follows: the answer is
  500, and the post \<open>p9\<close> that the request created is still in the table.
\<close>

theorem failed_delete_keeps_post_counterexample:
  "fst (POST (failing_env (\<lambda>op. is_update op \<or> is_delete op)) demo_s3 both_keys tiny_db
          (signed_in ''a@x'') demo_payload) = Response 500 (Failure ''Internal server error'')
   \<and> map p_id (posts (r_db (snd (POST (failing_env (\<lambda>op. is_update op \<or> is_delete op))
          demo_s3 both_keys tiny_db (signed_in ''a@x'') demo_payload)))) = [''p9'']
   \<and> posts tiny_db = []
   \<and> fst (file_processing (failing_env (\<lambda>op. is_update op \<or> is_delete op)) demo_s3 both_keys
          (snd (projr (post_create (failing_env (\<lambda>op. is_update op \<or> is_delete op)) tiny_db
                  (new_post_data alice demo_payload))))
          ''u1'' ''p9'' demo_payload (files_of demo_payload)) = Inl PrismaError"
  by code_simp

text \<open>
  Claim C4, as the code has it. In a creation request that has created its post, the image
  rows added to the table are, in the order of the files, one row for each file whose move
  and whose insert both did not throw, holding the URL that the move returned and the
  identifier of the new post. Every other file was reported by the inner \<open>catch\<close> and
  skipped while the loop went on, so the number of rows added is the number of files less
  the number of files reported, and it equals the number of moved files when no insert
  throws. None of this decides the answer: the answer is 200 exactly when the cover-image
  step and the update after the loop do not throw, and 500 otherwise; the cover-image step
  throws only when the final key of the hinted file cannot be computed, which line 114 does
  outside the inner \<open>try\<close>. With one failing file and the answer 200 the number of rows is
  one less than the number of files.
\<close>

theorem image_rows_per_processed_file:
  assumes auth: "truthy (session_email sess) = Some email"
      and valid: "\<not> missing_required b"
      and user: "user_findUnique env d email = Inr (Some u)"
      and created: "post_create env d (new_post_data u b) = Inr (p, d1)"
  shows "(let r = process_files env s3 (u_id u) (p_id p) (b_visibility b) (fresh_run st d1)
                    (files_of b);
              tr = runs_before env s3 (u_id u) (p_id p) (b_visibility b) (fresh_run st d1)
                     (files_of b);
              rec = recorded_image env s3 (u_id u) (p_id p) (b_visibility b);
              mov = moved_url s3 (u_id u) (p_id p) (b_visibility b);
              hinted = cover_from_hint s3 (u_id u) (p_id p) (b_visibility b) (b_coverImage b)
                         (files_of b);
              answer = POST env s3 st d sess b
          in map fst tr = files_of b
           \<and> images (r_db r) = images d @ List.map_filter rec tr
           \<and> movedFiles r = List.map_filter mov tr
           \<and> reported r = map (fileName \<circ> fst) (filter (\<lambda>fr. rec fr = None) tr)
           \<and> length (images (r_db r)) + length (reported r) =
               length (images d) + length (files_of b)
           \<and> (length (reported r) = 1 \<longrightarrow>
                 length (images (r_db r)) + 1 = length (images d) + length (files_of b))
           \<and> (\<forall>fr i. rec fr = Some i \<longrightarrow> mov fr = Some (i_url i) \<and> i_postId i = p_id p)
           \<and> ((\<forall>dd im. \<not> db_fails env dd (OpImageCreate im)) \<longrightarrow>
                 length (images (r_db r)) = length (images d) + length (movedFiles r))
           \<and> (status (fst answer) = 200 \<longleftrightarrow>
                 (\<exists>fc. hinted = Inr fc
                    \<and> \<not> db_fails env (r_db r)
                          (OpPostUpdate (p_id p) (pick_cover fc (movedFiles r)))))
           \<and> (status (fst answer) = 200 \<or> status (fst answer) = 500)
           \<and> (status (fst answer) = 200 \<longrightarrow>
                 images (r_db (snd answer)) = images (r_db r)
                 \<and> reported (snd answer) = reported r
                 \<and> movedFiles (snd answer) = movedFiles r)
           \<and> (\<forall>e. hinted = Inl e \<longrightarrow>
                 (\<exists>c f. truthy (b_coverImage b) = Some c
                    \<and> find_cover_file c (files_of b) = Some f
                    \<and> generateFinalKey s3 (u_id u) (p_id p) (fileName f) (b_visibility b) =
                        Inl e)))"
proof -
  define r where "r = process_files env s3 (u_id u) (p_id p) (b_visibility b) (fresh_run st d1)
                        (files_of b)"
  define tr where "tr = runs_before env s3 (u_id u) (p_id p) (b_visibility b) (fresh_run st d1)
                        (files_of b)"
  define rec where "rec = recorded_image env s3 (u_id u) (p_id p) (b_visibility b)"
  define mov where "mov = moved_url s3 (u_id u) (p_id p) (b_visibility b)"
  define hinted where "hinted = cover_from_hint s3 (u_id u) (p_id p) (b_visibility b)
                                  (b_coverImage b) (files_of b)"
  define answer where "answer = POST env s3 st d sess b"
  have t1: "map fst tr = files_of b"
    unfolding tr_def by (rule map_fst_runs_before)
  have img: "images (r_db r) = images d @ List.map_filter rec tr"
    unfolding r_def tr_def rec_def
    using post_create_result(2) [OF created]
    by (simp add: process_files_images fresh_run_def)
  have mv: "movedFiles r = List.map_filter mov tr"
    unfolding r_def tr_def mov_def by (simp add: process_files_moved fresh_run_def)
  have rep: "reported r = map (fileName \<circ> fst) (filter (\<lambda>fr. rec fr = None) tr)"
    unfolding r_def tr_def rec_def by (simp add: process_files_reported fresh_run_def)
  have "length tr = length (files_of b)"
    unfolding tr_def by (rule length_runs_before)
  then have cnt: "length (images (r_db r)) + length (reported r) =
                  length (images d) + length (files_of b)"
    using length_map_filter_split [of rec tr] by (simp add: img rep)
  have less: "length (reported r) = 1 \<longrightarrow>
                 length (images (r_db r)) + 1 = length (images d) + length (files_of b)"
    using cnt by simp
  have one: "\<forall>fr i. rec fr = Some i \<longrightarrow> mov fr = Some (i_url i) \<and> i_postId i = p_id p"
    unfolding rec_def mov_def using recorded_image_moved by blast
  have same: "(\<forall>dd im. \<not> db_fails env dd (OpImageCreate im)) \<longrightarrow>
                length (images (r_db r)) = length (images d) + length (movedFiles r)"
  proof
    assume "\<forall>dd im. \<not> db_fails env dd (OpImageCreate im)"
    then have "map i_url (List.map_filter rec tr) = List.map_filter mov tr"
      unfolding rec_def mov_def by (rule recorded_when_inserts_succeed)
    then have "length (List.map_filter rec tr) = length (List.map_filter mov tr)"
      by (metis length_map)
    then show "length (images (r_db r)) = length (images d) + length (movedFiles r)"
      by (simp add: img mv)
  qed
  have present: "\<exists>x \<in> set (posts (r_db r)). p_id x = p_id p"
    unfolding r_def using post_create_result(1) [OF created]
    by (simp add: process_files_rest fresh_run_def)
  have ans: "answer =
           (case file_processing env s3 st d1 (u_id u) (p_id p) b (files_of b) of
              (Inr (updatedPost, imgs), r) \<Rightarrow> (Response 200 (Created updatedPost imgs), r)
            | (Inl e, r) \<Rightarrow>
                (case post_delete env (r_db r) (p_id p) of
                   Inl e' \<Rightarrow> (internal_error, r)
                 | Inr d3 \<Rightarrow>
                     (Response 500 (Failure ''Failed to process uploaded files''),
                      r\<lparr>r_db := d3\<rparr>)))"
    unfolding answer_def by (rule POST_after_create [OF auth valid user created])
  have fp: "file_processing env s3 st d1 (u_id u) (p_id p) b (files_of b) =
      (case hinted of
         Inl e \<Rightarrow> (Inl e, r)
       | Inr fc \<Rightarrow>
           (case post_update env (r_db r) (p_id p) (pick_cover fc (movedFiles r)) of
              Inl e \<Rightarrow> (Inl e, r)
            | Inr (up, d') \<Rightarrow>
                (Inr (up, filter (\<lambda>i. i_postId i = p_id p) (images d')), r\<lparr>r_db := d'\<rparr>)))"
    unfolding file_processing_def Let_def hinted_def r_def by simp
  have st_cases: "status (fst answer) = 200 \<or> status (fst answer) = 500"
    unfolding ans by (auto simp: internal_error_def split: sum.splits prod.splits)
  have ok_iff: "status (fst answer) = 200 \<longleftrightarrow>
                 (\<exists>fc. hinted = Inr fc
                    \<and> \<not> db_fails env (r_db r)
                          (OpPostUpdate (p_id p) (pick_cover fc (movedFiles r))))"
  proof (cases hinted)
    case (Inl e)
    then have "status (fst answer) = 500"
      unfolding ans fp by (auto simp: internal_error_def split: sum.splits)
    with Inl show ?thesis by simp
  next
    case (Inr fc)
    show ?thesis
    proof (cases "db_fails env (r_db r) (OpPostUpdate (p_id p) (pick_cover fc (movedFiles r)))")
      case True
      then have "post_update env (r_db r) (p_id p) (pick_cover fc (movedFiles r)) =
                   Inl PrismaError"
        by (simp add: post_update_def)
      then have "status (fst answer) = 500"
        unfolding ans fp Inr by (auto simp: internal_error_def split: sum.splits)
      with Inr True show ?thesis by simp
    next
      case False
      then obtain up d' where
        "post_update env (r_db r) (p_id p) (pick_cover fc (movedFiles r)) = Inr (up, d')"
        using post_update_Inr_iff [OF present] by blast
      then have "status (fst answer) = 200"
        unfolding ans fp Inr by simp
      with Inr False show ?thesis by simp
    qed
  qed
  have kept: "status (fst answer) = 200 \<longrightarrow>
                 images (r_db (snd answer)) = images (r_db r)
                 \<and> reported (snd answer) = reported r
                 \<and> movedFiles (snd answer) = movedFiles r"
  proof
    assume "status (fst answer) = 200"
    then obtain fc where h: "hinted = Inr fc"
      and nf: "\<not> db_fails env (r_db r) (OpPostUpdate (p_id p) (pick_cover fc (movedFiles r)))"
      using ok_iff by blast
    then obtain up d' where
      u: "post_update env (r_db r) (p_id p) (pick_cover fc (movedFiles r)) = Inr (up, d')"
      using post_update_Inr_iff [OF present] by blast
    have "snd answer = r\<lparr>r_db := d'\<rparr>"
      unfolding ans fp h by (simp add: u)
    then show "images (r_db (snd answer)) = images (r_db r)
                 \<and> reported (snd answer) = reported r
                 \<and> movedFiles (snd answer) = movedFiles r"
      using post_update_result(3) [OF u] by simp
  qed
  have thrown: "\<forall>e. hinted = Inl e \<longrightarrow>
                 (\<exists>c f. truthy (b_coverImage b) = Some c
                    \<and> find_cover_file c (files_of b) = Some f
                    \<and> generateFinalKey s3 (u_id u) (p_id p) (fileName f) (b_visibility b) =
                        Inl e)"
    unfolding hinted_def using cover_from_hint_throws by blast
  have "map fst tr = files_of b
           \<and> images (r_db r) = images d @ List.map_filter rec tr
           \<and> movedFiles r = List.map_filter mov tr
           \<and> reported r = map (fileName \<circ> fst) (filter (\<lambda>fr. rec fr = None) tr)
           \<and> length (images (r_db r)) + length (reported r) =
               length (images d) + length (files_of b)
           \<and> (length (reported r) = 1 \<longrightarrow>
                 length (images (r_db r)) + 1 = length (images d) + length (files_of b))
           \<and> (\<forall>fr i. rec fr = Some i \<longrightarrow> mov fr = Some (i_url i) \<and> i_postId i = p_id p)
           \<and> ((\<forall>dd im. \<not> db_fails env dd (OpImageCreate im)) \<longrightarrow>
                 length (images (r_db r)) = length (images d) + length (movedFiles r))
           \<and> (status (fst answer) = 200 \<longleftrightarrow>
                 (\<exists>fc. hinted = Inr fc
                    \<and> \<not> db_fails env (r_db r)
                          (OpPostUpdate (p_id p) (pick_cover fc (movedFiles r)))))
           \<and> (status (fst answer) = 200 \<or> status (fst answer) = 500)
           \<and> (status (fst answer) = 200 \<longrightarrow>
                 images (r_db (snd answer)) = images (r_db r)
                 \<and> reported (snd answer) = reported r
                 \<and> movedFiles (snd answer) = movedFiles r)
           \<and> (\<forall>e. hinted = Inl e \<longrightarrow>
                 (\<exists>c f. truthy (b_coverImage b) = Some c
                    \<and> find_cover_file c (files_of b) = Some f
                    \<and> generateFinalKey s3 (u_id u) (p_id p) (fileName f) (b_visibility b) =
                        Inl e))"
    by (intro conjI t1 img mv rep cnt less one same ok_iff st_cases kept thrown)
  then show ?thesis
    unfolding Let_def r_def tr_def rec_def mov_def hinted_def answer_def .
qed

theorem image_rows_per_processed_file_witness:
  "truthy (session_email (signed_in ''a@x'')) = Some ''a@x''
   \<and> \<not> missing_required demo_payload
   \<and> user_findUnique quiet_env tiny_db ''a@x'' = Inr (Some alice)
   \<and> p_id (fst (projr (post_create quiet_env tiny_db (new_post_data alice demo_payload)))) = ''p9''
   \<and> status (fst (POST quiet_env demo_s3 [''tmp/b.png''] tiny_db (signed_in ''a@x'') demo_payload)) = 200
   \<and> map i_url (images (r_db (snd (POST quiet_env demo_s3 [''tmp/b.png''] tiny_db
         (signed_in ''a@x'') demo_payload)))) = [url_b]
   \<and> reported (snd (POST quiet_env demo_s3 [''tmp/b.png''] tiny_db (signed_in ''a@x'')
         demo_payload)) = [''a.png'']
   \<and> length (images (r_db (snd (POST quiet_env demo_s3 [''tmp/b.png''] tiny_db
         (signed_in ''a@x'') demo_payload))))
       + length (reported (snd (POST quiet_env demo_s3 [''tmp/b.png''] tiny_db
         (signed_in ''a@x'') demo_payload)))
       = length (images tiny_db) + length (files_of demo_payload)
   \<and> length (files_of demo_payload) = 2
   \<and> status (fst (POST quiet_env picky_s3 both_keys tiny_db (signed_in ''a@x'')
         (demo_payload\<lparr>b_coverImage := Some ''tmp/a.png''\<rparr>))) = 500"
proof -
  let ?X = "POST quiet_env demo_s3 [''tmp/b.png''] tiny_db (signed_in ''a@x'') demo_payload"
  let ?p = "\<lparr>p_id = ''p9'', p_title = ''t'', p_description = ''d'', p_category = ''ART'',
      p_tags = [], p_visibility = PUBLIC, p_isDraft = False, p_userId = ''u1'',
      p_coverImage = Some [], p_createdAt = 9\<rparr>"
  let ?d1 = "tiny_db\<lparr>posts := [?p]\<rparr>"
  let ?r = "process_files quiet_env demo_s3 (u_id alice) (p_id ?p) (b_visibility demo_payload)
              (fresh_run [''tmp/b.png''] ?d1) (files_of demo_payload)"
  have h1: "truthy (session_email (signed_in ''a@x'')) = Some ''a@x''" by code_simp
  have h2: "\<not> missing_required demo_payload" by code_simp
  have h3: "user_findUnique quiet_env tiny_db ''a@x'' = Inr (Some alice)" by code_simp
  have h4: "post_create quiet_env tiny_db (new_post_data alice demo_payload) = Inr (?p, ?d1)"
    by code_simp
  have s: "status (fst ?X) = 200" by code_simp
  have i: "map i_url (images (r_db (snd ?X))) = [url_b]" by code_simp
  have r: "reported (snd ?X) = [''a.png'']" by code_simp
  have n: "length (files_of demo_payload) = 2" by code_simp
  have bad: "status (fst (POST quiet_env picky_s3 both_keys tiny_db (signed_in ''a@x'')
         (demo_payload\<lparr>b_coverImage := Some ''tmp/a.png''\<rparr>))) = 500" by code_simp
  note t = image_rows_per_processed_file [OF h1 h2 h3 h4, of demo_s3 "[''tmp/b.png'']",
      unfolded Let_def]
  from t have cnt: "length (images (r_db ?r)) + length (reported ?r) =
                      length (images tiny_db) + length (files_of demo_payload)"
    by (elim conjE)
  from t s have "images (r_db (snd ?X)) = images (r_db ?r) \<and> reported (snd ?X) = reported ?r"
    by (elim conjE) simp
  with cnt have c: "length (images (r_db (snd ?X))) + length (reported (snd ?X)) =
                      length (images tiny_db) + length (files_of demo_payload)"
    by simp
  have d: "p_id (fst (projr (post_create quiet_env tiny_db (new_post_data alice demo_payload)))) = ''p9''"
    using h4 by simp
  from h1 h2 h3 d s i r c n bad show ?thesis by blast
qed

text \<open>
  The claim as it is written counts the files whose move did not throw. Here both moves
  succeed and the insert of the second image row throws: the answer is 200, two files were
  moved, and one image row was written.
\<close>

theorem moved_file_without_row_counterexample:
  "status (fst (POST (failing_env (is_insert_of url_b)) demo_s3 both_keys tiny_db
      (signed_in ''a@x'') demo_payload)) = 200
   \<and> movedFiles (snd (POST (failing_env (is_insert_of url_b)) demo_s3 both_keys tiny_db
      (signed_in ''a@x'') demo_payload)) = [url_a, url_b]
   \<and> map i_url (images (r_db (snd (POST (failing_env (is_insert_of url_b)) demo_s3 both_keys
      tiny_db (signed_in ''a@x'') demo_payload)))) = [url_a]
   \<and> images tiny_db = []"
  by code_simp

text \<open>
  Claim C5, as the code has it. In a creation request that is answered with 200, when a
  cover hint is given (not empty) and names a file of the original list, that is, the part
  of the file's temporary key after its last slash occurs somewhere in the hint, the cover
  image of the post is the final URL recomputed from the final key of the first such file,
  whether or not that file was moved. When no hint is given or it names no file, the cover
  image is the URL returned by the move of the first moved file, or \<open>null\<close> when no file
  was moved or that URL is empty. The file name plays no part in the match.
\<close>

theorem cover_image_resolution:
  assumes ok: "POST env s3 st d sess b = (Response 200 (Created up imgs), r')"
  shows "\<exists>u p d1.
           post_create env d (new_post_data u b) = Inr (p, d1) \<and> p_id up = p_id p
         \<and> movedFiles r' =
             List.map_filter (moved_url s3 (u_id u) (p_id p) (b_visibility b))
               (runs_before env s3 (u_id u) (p_id p) (b_visibility b) (fresh_run st d1)
                  (files_of b))
         \<and> (\<forall>c pre f post.
               b_coverImage b = Some c \<and> c \<noteq> [] \<and> files_of b = pre @ f # post
               \<and> hint_names c f \<and> (\<forall>g \<in> set pre. \<not> hint_names c g) \<longrightarrow>
               (\<exists>key. generateFinalKey s3 (u_id u) (p_id p) (fileName f) (b_visibility b) =
                         Inr key
                  \<and> p_coverImage up =
                      Some (''https://'' @ bucket s3 @ ''.s3.'' @ region s3
                              @ ''.amazonaws.com/'' @ key)))
         \<and> (b_coverImage b = None \<or> b_coverImage b = Some []
              \<or> (\<exists>c. b_coverImage b = Some c \<and> (\<forall>g \<in> set (files_of b). \<not> hint_names c g)) \<longrightarrow>
               p_coverImage up =
                 (case movedFiles r' of
                    [] \<Rightarrow> None
                  | url # _ \<Rightarrow> if url = [] then None else Some url))"
proof -
  from ok obtain email u p d1 fc d' where
    created: "post_create env d (new_post_data u b) = Inr (p, d1)"
    and hint: "cover_from_hint s3 (u_id u) (p_id p) (b_visibility b) (b_coverImage b) (files_of b)
               = Inr fc"
    and upd: "post_update env
       (r_db (process_files env s3 (u_id u) (p_id p) (b_visibility b) (fresh_run st d1) (files_of b)))
       (p_id p)
       (pick_cover fc (movedFiles
          (process_files env s3 (u_id u) (p_id p) (b_visibility b) (fresh_run st d1) (files_of b))))
     = Inr (up, d')"
    and r': "r' = (process_files env s3 (u_id u) (p_id p) (b_visibility b) (fresh_run st d1)
                    (files_of b))\<lparr>r_db := d'\<rparr>"
    by (rule POST_createdE) auto
  have mv: "movedFiles r' =
             List.map_filter (moved_url s3 (u_id u) (p_id p) (b_visibility b))
               (runs_before env s3 (u_id u) (p_id p) (b_visibility b) (fresh_run st d1)
                  (files_of b))"
    unfolding r' by (simp add: process_files_moved fresh_run_def)
  have cover: "p_coverImage up = pick_cover fc (movedFiles r')"
    using post_update_result(1) [OF upd] by (simp add: r')
  have pid: "p_id up = p_id p"
    using post_update_result(2) [OF upd] .
  have a: "\<exists>key. generateFinalKey s3 (u_id u) (p_id p) (fileName f) (b_visibility b) = Inr key
              \<and> p_coverImage up =
                  Some (''https://'' @ bucket s3 @ ''.s3.'' @ region s3 @ ''.amazonaws.com/'' @ key)"
    if h: "b_coverImage b = Some c \<and> c \<noteq> [] \<and> files_of b = pre @ f # post
           \<and> hint_names c f \<and> (\<forall>g \<in> set pre. \<not> hint_names c g)" for c pre f post
  proof -
    from h have tr: "truthy (b_coverImage b) = Some c" by (simp add: truthy_def)
    from h have fd: "find_cover_file c (files_of b) = Some f"
      by (intro find_cover_file_first [of _ pre f post]) auto
    from tr fd cover_from_hint_cases [OF hint] obtain key where
      k: "generateFinalKey s3 (u_id u) (p_id p) (fileName f) (b_visibility b) = Inr key"
      and fc: "fc = final_url s3 key"
      by auto
    have "pick_cover fc (movedFiles r') = Some (final_url s3 key)"
      unfolding fc by (simp add: pick_cover_def final_url_nonempty)
    with cover k show ?thesis by (auto simp: final_url_def)
  qed
  have c: "p_coverImage up =
             (case movedFiles r' of [] \<Rightarrow> None | url # _ \<Rightarrow> if url = [] then None else Some url)"
    if h: "b_coverImage b = None \<or> b_coverImage b = Some []
           \<or> (\<exists>c. b_coverImage b = Some c \<and> (\<forall>g \<in> set (files_of b). \<not> hint_names c g))"
  proof -
    have "truthy (b_coverImage b) = None
        \<or> (\<exists>c. truthy (b_coverImage b) = Some c \<and> find_cover_file c (files_of b) = None)"
    proof (cases "truthy (b_coverImage b)")
      case None
      then show ?thesis by simp
    next
      case (Some c)
      then have bc: "b_coverImage b = Some c" and "c \<noteq> []"
        by (auto simp: truthy_def split: option.splits if_splits)
      with h have "\<forall>g \<in> set (files_of b). \<not> hint_names c g" by auto
      then have "find_cover_file c (files_of b) = None" by (rule find_cover_file_none)
      with Some show ?thesis by simp
    qed
    with cover_from_hint_cases [OF hint] have "fc = []" by auto
    with cover show ?thesis by (auto simp: pick_cover_def split: list.splits)
  qed
  have A: "\<forall>c pre f post.
               b_coverImage b = Some c \<and> c \<noteq> [] \<and> files_of b = pre @ f # post
               \<and> hint_names c f \<and> (\<forall>g \<in> set pre. \<not> hint_names c g) \<longrightarrow>
               (\<exists>key. generateFinalKey s3 (u_id u) (p_id p) (fileName f) (b_visibility b) =
                         Inr key
                  \<and> p_coverImage up =
                      Some (''https://'' @ bucket s3 @ ''.s3.'' @ region s3
                              @ ''.amazonaws.com/'' @ key))"
    using a by blast
  have C: "b_coverImage b = None \<or> b_coverImage b = Some []
              \<or> (\<exists>c. b_coverImage b = Some c \<and> (\<forall>g \<in> set (files_of b). \<not> hint_names c g)) \<longrightarrow>
               p_coverImage up =
                 (case movedFiles r' of
                    [] \<Rightarrow> None
                  | url # _ \<Rightarrow> if url = [] then None else Some url)"
    using c by blast
  show ?thesis
    apply (rule exI [of _ u], rule exI [of _ p], rule exI [of _ d1])
    apply (intro conjI)
        apply (rule created)
       apply (rule pid)
      apply (rule mv)
     apply (rule A)
    apply (rule C)
    done
qed

theorem cover_image_resolution_witness:
  "POST quiet_env demo_s3 both_keys tiny_db (signed_in ''a@x'')
       (demo_payload\<lparr>b_coverImage := Some ''https://t.example/tmp/b.png''\<rparr>) =
     (Response 200
        (Created
           \<lparr>p_id = ''p9'', p_title = ''t'', p_description = ''d'', p_category = ''ART'',
            p_tags = [], p_visibility = PUBLIC, p_isDraft = False, p_userId = ''u1'',
            p_coverImage = Some url_b, p_createdAt = 9\<rparr>
           [\<lparr>i_id = ''i'', i_url = url_a, i_description = None, i_postId = ''p9''\<rparr>,
            \<lparr>i_id = ''i+'', i_url = url_b, i_description = None, i_postId = ''p9''\<rparr>]),
      snd (POST quiet_env demo_s3 both_keys tiny_db (signed_in ''a@x'')
       (demo_payload\<lparr>b_coverImage := Some ''https://t.example/tmp/b.png''\<rparr>)))
   \<and> hint_names ''https://t.example/tmp/b.png'' (mk_file ''tmp/b.png'' ''b.png'')
   \<and> \<not> hint_names ''https://t.example/tmp/b.png'' (mk_file ''tmp/a.png'' ''a.png'')
   \<and> files_of demo_payload = [mk_file ''tmp/a.png'' ''a.png''] @ mk_file ''tmp/b.png'' ''b.png'' # []
   \<and> generateFinalKey demo_s3 ''u1'' ''p9'' ''b.png'' (Some ''PUBLIC'') = Inr ''u1/p9/b.png''
   \<and> Some url_b = Some (''https://'' @ bucket demo_s3 @ ''.s3.'' @ region demo_s3
                            @ ''.amazonaws.com/'' @ ''u1/p9/b.png'')
   \<and> movedFiles (snd (POST quiet_env demo_s3 both_keys tiny_db (signed_in ''a@x'')
       (demo_payload\<lparr>b_coverImage := Some ''https://t.example/tmp/b.png''\<rparr>))) = [url_a, url_b]"
proof -
  let ?c = "''https://t.example/tmp/b.png''"
  let ?b = "demo_payload\<lparr>b_coverImage := Some ?c\<rparr>"
  let ?X = "POST quiet_env demo_s3 both_keys tiny_db (signed_in ''a@x'') ?b"
  let ?up = "\<lparr>p_id = ''p9'', p_title = ''t'', p_description = ''d'', p_category = ''ART'',
            p_tags = [], p_visibility = PUBLIC, p_isDraft = False, p_userId = ''u1'',
            p_coverImage = Some url_b, p_createdAt = 9\<rparr>"
  let ?imgs = "[\<lparr>i_id = ''i'', i_url = url_a, i_description = None, i_postId = ''p9''\<rparr>,
            \<lparr>i_id = ''i+'', i_url = url_b, i_description = None, i_postId = ''p9''\<rparr>]"
  let ?fa = "mk_file ''tmp/a.png'' ''a.png''"
  let ?fb = "mk_file ''tmp/b.png'' ''b.png''"
  have f: "fst ?X = Response 200 (Created ?up ?imgs)" by code_simp
  then have g: "?X = (Response 200 (Created ?up ?imgs), snd ?X)"
    by (metis prod.collapse)
  have nb: "hint_names ?c ?fb" unfolding hint_names_iff by code_simp
  have na: "\<not> hint_names ?c ?fa" unfolding hint_names_iff by code_simp
  have fs: "files_of ?b = [?fa] @ ?fb # []" by code_simp
  have fs': "files_of demo_payload = [?fa] @ ?fb # []" by code_simp
  have k: "generateFinalKey demo_s3 ''u1'' ''p9'' ''b.png'' (Some ''PUBLIC'') = Inr ''u1/p9/b.png''"
    by code_simp
  have mf: "movedFiles (snd ?X) = [url_a, url_b]" by code_simp
  from cover_image_resolution [OF g] obtain u p d1 where
    pc: "post_create quiet_env tiny_db (new_post_data u ?b) = Inr (p, d1)"
    and rule: "\<forall>c pre f post.
               b_coverImage ?b = Some c \<and> c \<noteq> [] \<and> files_of ?b = pre @ f # post
               \<and> hint_names c f \<and> (\<forall>g \<in> set pre. \<not> hint_names c g) \<longrightarrow>
               (\<exists>key. generateFinalKey demo_s3 (u_id u) (p_id p) (fileName f) (b_visibility ?b) =
                         Inr key
                  \<and> p_coverImage ?up =
                      Some (''https://'' @ bucket demo_s3 @ ''.s3.'' @ region demo_s3
                              @ ''.amazonaws.com/'' @ key))"
    by blast
  have "b_coverImage ?b = Some ?c \<and> ?c \<noteq> [] \<and> files_of ?b = [?fa] @ ?fb # []
        \<and> hint_names ?c ?fb \<and> (\<forall>g \<in> set [?fa]. \<not> hint_names ?c g)"
    using nb na fs by simp
  with rule obtain key where
    "generateFinalKey demo_s3 (u_id u) (p_id p) (fileName ?fb) (b_visibility ?b) = Inr key"
    and cv: "p_coverImage ?up =
               Some (''https://'' @ bucket demo_s3 @ ''.s3.'' @ region demo_s3
                       @ ''.amazonaws.com/'' @ key)"
    by blast
  then have "key = u_id u @ ''/'' @ p_id p @ ''/'' @ ''b.png''"
    by (simp add: demo_s3_def mk_file_def)
  have u: "Some url_b = Some (''https://'' @ bucket demo_s3 @ ''.s3.'' @ region demo_s3
                            @ ''.amazonaws.com/'' @ ''u1/p9/b.png'')"
    by code_simp
  from g nb na fs' k u mf show ?thesis by blast
qed

text \<open>
  The claim as it is written matches the hint with a file by file-name suffix. The files
  \<open>a.png\<close> and \<open>b.png\<close> are stored under the temporary keys \<open>tmp/k1\<close> and \<open>tmp/k2\<close>. The
  hint \<open>b.png\<close> ends with the second file's name and yet selects nothing: the cover image
  is the first moved file's URL. The hint \<open>tmp/k2?v=1\<close> ends with no name and no key and
  yet selects the second file.
\<close>

theorem hint_by_file_name_counterexample:
  "map fileName (files_of keyed_payload) = [''a.png'', ''b.png'']
   \<and> map s3Key (files_of keyed_payload) = [''tmp/k1'', ''tmp/k2'']
   \<and> (case body (fst (POST quiet_env demo_s3 [''tmp/k1'', ''tmp/k2''] tiny_db (signed_in ''a@x'')
                  (keyed_payload\<lparr>b_coverImage := Some ''b.png''\<rparr>))) of
         Created up imgs \<Rightarrow> p_coverImage up = Some url_a
       | _ \<Rightarrow> False)
   \<and> (case body (fst (POST quiet_env demo_s3 [''tmp/k1'', ''tmp/k2''] tiny_db (signed_in ''a@x'')
                  (keyed_payload\<lparr>b_coverImage := Some ''tmp/k2?v=1''\<rparr>))) of
         Created up imgs \<Rightarrow> p_coverImage up = Some url_b
       | _ \<Rightarrow> False)
   \<and> final_url demo_s3 ''u1/p9/a.png'' = url_a
   \<and> final_url demo_s3 ''u1/p9/b.png'' = url_b"
  by code_simp




end
